theory Spec2Isabelle
  imports Complex_Main "HOL-Library.AList"
begin

section \<open>JavaScript values\<close>

text \<open>
  The scripts are untyped JavaScript, so the embedding works on one universe of values.
  A number is an IEEE double; the model keeps its real value, or \<open>NaN\<close>. The two
  infinities are not represented: inside the functions modelled here a division is
  always by a positive number or by the constant 1000000.

  An object is the list of its own enumerable properties, with distinct keys, in the
  order in which the object enumerates them; defining a property keeps the position of a
  key that is already there and appends a new key (\<open>AList.update\<close>). That
  JavaScript enumerates the keys that are array indices first is not modelled: the
  scripts read the objects they build by property name only. The prototype of an object
  is not part of the value; the objects that the scripts read by a computed key carry
  theirs in the record \<open>object\<close> below. \<open>VFun n\<close> is the built-in function named
  \<open>n\<close>: the scripts meet one only as the value of a property of \<open>Object.prototype\<close>.
\<close>

datatype number = NaN | Fin real

datatype val =
    VUndefined
  | VNull
  | VBool bool
  | VNum number
  | VStr string
  | VArr "val list"
  | VObj "(string \<times> val) list"
  | VFun string

text \<open>Decimal notation of an array index, as property keys write it.\<close>

function decimal :: "nat \<Rightarrow> string" where
  "decimal n =
     (if n < 10 then [''0123456789'' ! n]
      else decimal (n div 10) @ [''0123456789'' ! (n mod 10)])"
  by pat_completeness auto
termination
  by (relation "measure id") auto

fun index_props :: "nat \<Rightarrow> val list \<Rightarrow> (string \<times> val) list" where
  "index_props i [] = []"
| "index_props i (x # xs) = (decimal i, x) # index_props (Suc i) xs"

text \<open>
  \<open>Object.assign(target, ...sources)\<close> assigns the own enumerable properties of each
  source to the target, in order. A source that is an array or a string contributes its
  indexed elements; \<open>undefined\<close>, \<open>null\<close>, booleans, numbers and functions contribute
  nothing. The copy is an assignment \<open>target[k] = v\<close>: for the key \<open>__proto__\<close> on a
  target that has no own property of that name it runs the setter of
  \<open>Object.prototype\<close>, which defines no property (it replaces the prototype of the
  target when \<open>v\<close> is an object or \<open>null\<close> and does nothing otherwise).
\<close>

fun own_props :: "val \<Rightarrow> (string \<times> val) list" where
  "own_props (VObj ms) = ms"
| "own_props (VArr xs) = index_props 0 xs"
| "own_props (VStr s) = index_props 0 (map (\<lambda>c. VStr [c]) s)"
| "own_props _ = []"

definition assign_props ::
  "(string \<times> val) list \<Rightarrow> (string \<times> val) list \<Rightarrow> (string \<times> val) list" where
  "assign_props target props =
     fold (\<lambda>(k, v) t. if k = ''__proto__'' \<and> map_of t k = None then t else AList.update k v t)
       props target"

definition Object_assign :: "(string \<times> val) list \<Rightarrow> val list \<Rightarrow> val" where
  "Object_assign target sources =
     VObj (fold (\<lambda>src t. assign_props t (own_props src)) sources target)"

section \<open>Numbers\<close>

text \<open>
  Every arithmetic result is rounded to the nearest double, ties to even (53 significant
  bits, gradual underflow below \<open>2 powi (- 1022)\<close>). \<open>exponent x\<close> is the binary
  exponent of a positive \<open>x\<close>: \<open>2 powi e \<le> x < 2 powi (e + 1)\<close>. Overflow to an
  infinity is outside the model.
\<close>

function expo_ge :: "real \<Rightarrow> int" where
  "expo_ge x = (if 2 \<le> x then expo_ge (x / 2) + 1 else 0)"
  by pat_completeness auto
termination
proof (relation "measure (\<lambda>x. nat \<lceil>x\<rceil>)")
  show "wf (measure (\<lambda>x. nat \<lceil>x\<rceil>))" by simp
next
  fix x :: real assume "2 \<le> x"
  then have "\<lceil>x / 2\<rceil> < \<lceil>x\<rceil>" by linarith
  moreover have "0 < \<lceil>x\<rceil>" using \<open>2 \<le> x\<close> by linarith
  ultimately show "(x / 2, x) \<in> measure (\<lambda>x. nat \<lceil>x\<rceil>)" by simp
qed

function expo_lt :: "real \<Rightarrow> int" where
  "expo_lt x = (if 0 < x \<and> x < 1 then expo_lt (2 * x) - 1 else 0)"
  by pat_completeness auto
termination
proof (relation "measure (\<lambda>x. nat \<lceil>1 / x\<rceil>)")
  show "wf (measure (\<lambda>x. nat \<lceil>1 / x\<rceil>))" by simp
next
  fix x :: real assume a: "0 < x \<and> x < 1"
  define y where "y = 1 / x"
  have y: "1 < y" using a by (simp add: y_def)
  have "2 \<le> \<lceil>y\<rceil>" using y by linarith
  then have "y / 2 \<le> of_int (\<lceil>y\<rceil> - 1)"
    using le_of_int_ceiling [of y] by linarith
  then have "\<lceil>y / 2\<rceil> \<le> \<lceil>y\<rceil> - 1" by (rule ceiling_le)
  then have "\<lceil>y / 2\<rceil> < \<lceil>y\<rceil>" by simp
  moreover have "1 / (2 * x) = y / 2" by (simp add: y_def)
  ultimately have lt: "\<lceil>1 / (2 * x)\<rceil> < \<lceil>1 / x\<rceil>" by (simp only: y_def)
  have "0 < \<lceil>1 / x\<rceil>" using a by simp
  with lt show "(2 * x, x) \<in> measure (\<lambda>x. nat \<lceil>1 / x\<rceil>)"
    by (simp only: in_measure zless_nat_conj)
qed

declare expo_ge.simps [simp del] expo_lt.simps [simp del]

definition exponent :: "real \<Rightarrow> int" where
  "exponent x = (if 1 \<le> x then expo_ge x else expo_lt x)"

definition round_half_even :: "real \<Rightarrow> int" where
  "round_half_even y =
     (let f = \<lfloor>y\<rfloor>; d = y - of_int f
      in if d < 1 / 2 then f else if 1 / 2 < d then f + 1 else if even f then f else f + 1)"

definition fl :: "real \<Rightarrow> real" where
  "fl x =
     (if x = 0 then 0
      else let e = max (exponent \<bar>x\<bar>) (- 1022); ulp = 2 powi (e - 52)
           in of_int (round_half_even (x / ulp)) * ulp)"

text \<open>
  \<open>a / b\<close> and \<open>a - b\<close> on numbers. A division by zero would give an infinity or
  \<open>NaN\<close>; the model answers \<open>NaN\<close>, and no function below divides by zero.
\<close>

fun js_div :: "number \<Rightarrow> number \<Rightarrow> number" where
  "js_div (Fin a) (Fin b) = (if b = 0 then NaN else Fin (fl (a / b)))"
| "js_div _ _ = NaN"

fun js_sub :: "number \<Rightarrow> number \<Rightarrow> number" where
  "js_sub (Fin a) (Fin b) = Fin (fl (a - b))"
| "js_sub _ _ = NaN"

text \<open>Comparisons of numbers: every comparison with \<open>NaN\<close> is false.\<close>

fun js_lt :: "number \<Rightarrow> number \<Rightarrow> bool" where
  "js_lt (Fin a) (Fin b) = (a < b)"
| "js_lt _ _ = False"

fun js_gt :: "number \<Rightarrow> number \<Rightarrow> bool" where
  "js_gt (Fin a) (Fin b) = (a > b)"
| "js_gt _ _ = False"

fun js_ge :: "number \<Rightarrow> number \<Rightarrow> bool" where
  "js_ge (Fin a) (Fin b) = (a \<ge> b)"
| "js_ge _ _ = False"

fun js_eq :: "number \<Rightarrow> number \<Rightarrow> bool" where
  "js_eq (Fin a) (Fin b) = (a = b)"
| "js_eq _ _ = False"

section \<open>Conversions\<close>

text \<open>
  Two conversions of the language are taken as parameters: the number a non-empty string
  denotes (\<open>NaN\<close> when it denotes none) and the string that prints a finite number. The
  empty string denotes 0.
\<close>

record runtime =
  StringToNumber :: "string \<Rightarrow> number"
  NumberToString :: "real \<Rightarrow> string"

fun join_comma :: "string list \<Rightarrow> string" where
  "join_comma [] = []"
| "join_comma [s] = s"
| "join_comma (s # t # ss) = s @ '','' @ join_comma (t # ss)"

fun ToString :: "runtime \<Rightarrow> val \<Rightarrow> string" where
  "ToString rt VUndefined = ''undefined''"
| "ToString rt VNull = ''null''"
| "ToString rt (VBool b) = (if b then ''true'' else ''false'')"
| "ToString rt (VNum NaN) = ''NaN''"
| "ToString rt (VNum (Fin r)) = NumberToString rt r"
| "ToString rt (VStr s) = s"
| "ToString rt (VArr xs) =
     join_comma (map (\<lambda>x. if x = VUndefined \<or> x = VNull then [] else ToString rt x) xs)"
| "ToString rt (VObj ms) = ''[object Object]''"
| "ToString rt (VFun n) = ''function '' @ n @ ''() { [native code] }''"

definition string_number :: "runtime \<Rightarrow> string \<Rightarrow> number" where
  "string_number rt s = (if s = [] then Fin 0 else StringToNumber rt s)"

fun ToNumber :: "runtime \<Rightarrow> val \<Rightarrow> number" where
  "ToNumber rt VUndefined = NaN"
| "ToNumber rt VNull = Fin 0"
| "ToNumber rt (VBool b) = Fin (if b then 1 else 0)"
| "ToNumber rt (VNum n) = n"
| "ToNumber rt (VStr s) = string_number rt s"
| "ToNumber rt v = string_number rt (ToString rt v)"

fun truthy :: "val \<Rightarrow> bool" where
  "truthy VUndefined = False"
| "truthy VNull = False"
| "truthy (VBool b) = b"
| "truthy (VNum NaN) = False"
| "truthy (VNum (Fin r)) = (r \<noteq> 0)"
| "truthy (VStr s) = (s \<noteq> [])"
| "truthy _ = True"

definition nullish :: "val \<Rightarrow> bool" where
  "nullish v = (v = VUndefined \<or> v = VNull)"

text \<open>\<open>v == s\<close> for a string \<open>s\<close> (loose equality).\<close>

fun loose_eq_string :: "runtime \<Rightarrow> val \<Rightarrow> string \<Rightarrow> bool" where
  "loose_eq_string rt VUndefined s = False"
| "loose_eq_string rt VNull s = False"
| "loose_eq_string rt (VBool b) s = js_eq (Fin (if b then 1 else 0)) (string_number rt s)"
| "loose_eq_string rt (VNum n) s = js_eq n (string_number rt s)"
| "loose_eq_string rt (VStr t) s = (t = s)"
| "loose_eq_string rt v s = (ToString rt v = s)"

text \<open>
  Reading a property by a fixed name: \<open>getOwn ms k\<close> looks \<open>k\<close> up among the properties
  \<open>ms\<close>, and \<open>getProp v k\<close> is \<open>v[k]\<close> for a value that is neither \<open>undefined\<close> nor
  \<open>null\<close> and a name \<open>k\<close> that no array, string, function or prototype defines: the
  dotted paths and the field names \<open>segments\<close>, \<open>metrics\<close>, \<open>offerId\<close>, \<open>impressions\<close>,
  \<open>clicks\<close>, \<open>availability\<close> and \<open>stockQuantity\<close> that the scripts write out.
\<close>

definition getOwn :: "(string \<times> val) list \<Rightarrow> string \<Rightarrow> val" where
  "getOwn ms k = (case map_of ms k of None \<Rightarrow> VUndefined | Some v \<Rightarrow> v)"

fun getProp :: "val \<Rightarrow> string \<Rightarrow> val" where
  "getProp (VObj ms) k = getOwn ms k"
| "getProp v k = VUndefined"

text \<open>
  The objects \<open>metrics\<close> and \<open>products\<close> are filled by assignments \<open>o[k] = {...}\<close> and
  read by \<open>o[k]\<close> with keys that come from the data, so a key can be a name that
  \<open>Object.prototype\<close> defines. Such an object is its own enumerable properties and its
  prototype: \<open>None\<close> for \<open>Object.prototype\<close>, which every object literal starts with, and
  \<open>Some ms\<close> for a plain object with the own properties \<open>ms\<close> (its own prototype being
  \<open>Object.prototype\<close>) that an assignment to \<open>__proto__\<close> has put in its place.

  \<open>Object_prototype\<close> lists the data properties of \<open>Object.prototype\<close> in the V8 runtime,
  all of them functions and none enumerable; its one accessor, \<open>__proto__\<close>, answers the
  prototype of the object it is read from. \<open>Object.prototype\<close> itself, where it is the
  value read, is an object without enumerable properties, \<open>VObj []\<close>.
\<close>

record object =
  properties :: "(string \<times> val) list"
  prototype :: "(string \<times> val) list option"


definition Object_prototype :: "(string \<times> val) list" where
  "Object_prototype =
     [(''constructor'', VFun ''Object''),
      (''__defineGetter__'', VFun ''__defineGetter__''),
      (''__defineSetter__'', VFun ''__defineSetter__''),
      (''hasOwnProperty'', VFun ''hasOwnProperty''),
      (''__lookupGetter__'', VFun ''__lookupGetter__''),
      (''__lookupSetter__'', VFun ''__lookupSetter__''),
      (''isPrototypeOf'', VFun ''isPrototypeOf''),
      (''propertyIsEnumerable'', VFun ''propertyIsEnumerable''),
      (''toString'', VFun ''toString''),
      (''valueOf'', VFun ''valueOf''),
      (''toLocaleString'', VFun ''toLocaleString'')]"

text \<open>
  What \<open>Object.prototype\<close> answers for the name \<open>k\<close>, read from an object whose
  prototype has the enumerable properties \<open>proto\<close>; and \<open>o[k]\<close>: the own property, else
  the property of the prototype that was put in place, else the answer of
  \<open>Object.prototype\<close>, which is \<open>undefined\<close> for a name it does not define.
\<close>

definition inheritedMember :: "(string \<times> val) list \<Rightarrow> string \<Rightarrow> val" where
  "inheritedMember proto k = (if k = ''__proto__'' then VObj proto else getOwn Object_prototype k)"

definition getMember :: "object \<Rightarrow> string \<Rightarrow> val" where
  "getMember ob k =
     (case map_of (properties ob) k of
        Some v \<Rightarrow> v
      | None \<Rightarrow>
          (case prototype ob of
             None \<Rightarrow> inheritedMember [] k
           | Some ms \<Rightarrow>
               (case map_of ms k of Some v \<Rightarrow> v | None \<Rightarrow> inheritedMember ms k)))"


section \<open>The structural flattener\<close>

text \<open>
  \<open>flattenHelper(value, field)\<close>: a plain object (\<open>typeof value === 'object'\<close>, truthy,
  not an array) is flattened member by member into a fresh object; anything else is a
  leaf, wrapped as \<open>{[field]: value}\<close> when the path \<open>field\<close> is a non-empty string and
  returned as it is otherwise. \<open>flatten\<close> starts with the path \<open>undefined\<close>, which
  \<open>field || ''\<close> turns into the empty string. The result lists the own properties of
  the fresh object; the scripts read it by dotted names only, which no prototype defines.
\<close>

fun flattenHelper :: "val \<Rightarrow> string \<Rightarrow> val" where
  "flattenHelper (VObj ms) field =
     Object_assign []
       (map (\<lambda>(subField, v).
               flattenHelper v (if field \<noteq> [] then field @ ''.'' @ subField else subField))
          ms)"
| "flattenHelper v field = (if field \<noteq> [] then VObj [(field, v)] else v)"

definition flatten :: "val \<Rightarrow> val" where
  "flatten src = flattenHelper src []"

section \<open>Configuration\<close>

text \<open>
  The constants the scripts read from the spreadsheet once, when they are loaded
  (\<open>constants.js\<close>). The three rules are numbers, the label names and the export
  allow-list are strings, the two switches are booleans.
\<close>

record config =
  BELOW_BENCHMARK_RULE :: real
  BELOW_BENCHMARK_NAME :: string
  AT_BENCHMARK_RULE :: real
  AT_BENCHMARK_NAME :: string
  ABOVE_BENCHMARK_RULE :: real
  ABOVE_BENCHMARK_NAME :: string
  EXPORT_LABELS :: "string list"
  STOCK_ENABLED :: bool
  STOCK_ATTRIBUTE :: val
  STOCK_THRESHOLD :: real
  CUSTOM_LABEL_NUMBER :: val
  ACTIVATE_LABELS :: bool
  COUNTRY_FILTER :: string

section \<open>The label classifier\<close>

text \<open>
  \<open>calculateLabel(relativePrice)\<close>: the three rules in the order of the source.
  \<open>AT_BENCHMARK_RULE * (-1)\<close> only flips the sign of a double, so it is exact.
\<close>

definition calculateLabel :: "config \<Rightarrow> number \<Rightarrow> string" where
  "calculateLabel cfg relativePrice =
     (if js_lt relativePrice (Fin (BELOW_BENCHMARK_RULE cfg)) then BELOW_BENCHMARK_NAME cfg
      else if js_ge relativePrice (Fin (- AT_BENCHMARK_RULE cfg))
              \<and> js_lt relativePrice (Fin (AT_BENCHMARK_RULE cfg)) then AT_BENCHMARK_NAME cfg
      else if js_gt relativePrice (Fin (ABOVE_BENCHMARK_RULE cfg)) then ABOVE_BENCHMARK_NAME cfg
      else [])"

section \<open>The stock policy\<close>

text \<open>
  \<open>checkStock(stockInfo)\<close>: \<open>isNaN(stockInfo) || stockInfo == ''\<close> replaces the argument
  by 0, then the three tests of the source follow in their order, with the final
  \<open>return true\<close> of the last \<open>else\<close>.
\<close>

definition checkStock :: "runtime \<Rightarrow> config \<Rightarrow> val \<Rightarrow> bool" where
  "checkStock rt cfg stockInfo0 =
     (let stockInfo =
            (if ToNumber rt stockInfo0 = NaN \<or> loose_eq_string rt stockInfo0 []
             then VNum (Fin 0) else stockInfo0)
      in if \<not> STOCK_ENABLED cfg then True
         else if STOCK_ENABLED cfg \<and> js_ge (ToNumber rt stockInfo) (Fin (STOCK_THRESHOLD cfg))
           then True
         else if STOCK_ENABLED cfg \<and> js_lt (ToNumber rt stockInfo) (Fin (STOCK_THRESHOLD cfg))
           then False
         else True)"

section \<open>The reconciler\<close>

text \<open>
  What a script throws: a failed property read (\<open>TypeError\<close>, with the expression whose
  value was \<open>undefined\<close> or \<open>null\<close>), the \<open>SyntaxError\<close> of \<open>JSON.parse\<close>, and
  \<open>new Error(message)\<close>.
\<close>

datatype js_error = TypeError string | SyntaxError | Error string

type_synonym table = "val list list"

definition output_header :: "runtime \<Rightarrow> config \<Rightarrow> val list" where
  "output_header rt cfg =
     [VStr ''id'', VStr ''title'', VStr ''brand'', VStr ''current_price'', VStr ''currency'',
      VStr ''country'', VStr ''benchmark_price'', VStr ''% current vs. benchmark'',
      VStr (''custom_label_'' @ ToString rt (CUSTOM_LABEL_NUMBER cfg)), VStr ''impressions'',
      VStr ''clicks'']
     @ (if STOCK_ENABLED cfg then [STOCK_ATTRIBUTE cfg] else [])"

definition supplemental_header :: "runtime \<Rightarrow> config \<Rightarrow> val list" where
  "supplemental_header rt cfg =
     [VStr ''id'', VStr (''custom_label_'' @ ToString rt (CUSTOM_LABEL_NUMBER cfg))]"

text \<open>
  The body of the \<open>forEach\<close> callback of \<open>mergeData\<close> for one row, on the two arrays
  \<open>output\<close> and \<open>supplemental_feed\<close> it appends to. \<open>productData\<close> is an object;
  \<open>statsData\<close> is an object or \<open>null\<close> (\<open>None\<close>), which is what \<open>getStats\<close> returns. Both
  are read by \<open>productData[...]\<close> and \<open>statsData[...]\<close> with a key taken from the row.
  The first read of \<open>flatRow\<close> fails when \<open>flatten\<close> returned \<open>undefined\<close> or \<open>null\<close>;
  the read \<open>statsData[...]\<close> fails when \<open>statsData\<close> is \<open>null\<close>.
\<close>

definition mergeRow ::
  "runtime \<Rightarrow> config \<Rightarrow> object \<Rightarrow> object option \<Rightarrow> val
     \<Rightarrow> table \<times> table \<Rightarrow> js_error + table \<times> table" where
  "mergeRow rt cfg productData statsData row tables =
     (let output = fst tables; supplemental_feed = snd tables; flatRow = flatten row in
      if nullish flatRow then Inl (TypeError ''flatRow'')
      else if \<not> (js_gt (ToNumber rt (getProp flatRow ''priceCompetitiveness.benchmarkPriceMicros''))
                     (Fin 0)
                 \<and> truthy (getMember productData (ToString rt (getProp flatRow ''productView.id''))))
        then Inr (output, supplemental_feed)
      else
        let relativePrice =
              js_sub
                (js_div (ToNumber rt (getProp flatRow ''productView.priceMicros''))
                   (ToNumber rt (getProp flatRow ''priceCompetitiveness.benchmarkPriceMicros'')))
                (Fin 1);
            custom_label = calculateLabel cfg relativePrice;
            product = getMember productData (ToString rt (getProp flatRow ''productView.id''))
        in
        if \<not> (custom_label \<in> set (EXPORT_LABELS cfg)
                \<and> loose_eq_string rt (getProp product ''availability'') ''in stock''
                \<and> checkStock rt cfg (getProp product ''stockQuantity''))
          then Inr (output, supplemental_feed)
        else
          (case statsData of
             None \<Rightarrow> Inl (TypeError ''statsData'')
           | Some stats \<Rightarrow>
               let stat = getMember stats (ToString rt (getProp flatRow ''productView.offerId''));
                   impressions = (if truthy stat then getProp stat ''impressions'' else VNum (Fin 0));
                   clicks = (if truthy stat then getProp stat ''clicks'' else VNum (Fin 0));
                   stock_quantity =
                     (if truthy product then getProp product ''stockQuantity'' else VStr []);
                   cells =
                     [getProp flatRow ''productView.offerId'', getProp flatRow ''productView.title'',
                      getProp flatRow ''productView.brand'',
                      VNum (js_div (ToNumber rt (getProp flatRow ''productView.priceMicros''))
                              (Fin 1000000)),
                      getProp flatRow ''productView.currencyCode'',
                      getProp flatRow ''priceCompetitiveness.countryCode'',
                      VNum (js_div
                              (ToNumber rt
                                 (getProp flatRow ''priceCompetitiveness.benchmarkPriceMicros''))
                              (Fin 1000000)),
                      VNum relativePrice, VStr custom_label, impressions, clicks]
               in Inr (output @ [if STOCK_ENABLED cfg then cells @ [stock_quantity] else cells],
                       supplemental_feed
                         @ [[getProp flatRow ''productView.offerId'', VStr custom_label]])))"

fun forEach_row ::
  "runtime \<Rightarrow> config \<Rightarrow> object \<Rightarrow> object option \<Rightarrow> val list
     \<Rightarrow> table \<times> table \<Rightarrow> js_error + table \<times> table" where
  "forEach_row rt cfg productData statsData [] tables = Inr tables"
| "forEach_row rt cfg productData statsData (row # rows) tables =
     (case mergeRow rt cfg productData statsData row tables of
        Inl e \<Rightarrow> Inl e
      | Inr tables' \<Rightarrow> forEach_row rt cfg productData statsData rows tables')"

text \<open>
  The two arrays \<open>mergeData\<close> has built when it reaches \<open>pushToSheets\<close>: the header rows,
  then the rows of the callback.
\<close>

definition mergeTables ::
  "runtime \<Rightarrow> config \<Rightarrow> val list \<Rightarrow> object \<Rightarrow> object option
     \<Rightarrow> js_error + table \<times> table" where
  "mergeTables rt cfg benchmarkData productData statsData =
     forEach_row rt cfg productData statsData benchmarkData
       ([output_header rt cfg], [supplemental_header rt cfg])"

text \<open>
  What \<open>mergeData\<close> does to the outside: the sheets it rewrites, in order, or the line
  it logs when there is no benchmark row.
\<close>

datatype effect = PushToSheets string table | Log string

definition mergeData ::
  "runtime \<Rightarrow> config \<Rightarrow> val list \<Rightarrow> object \<Rightarrow> object option
     \<Rightarrow> js_error + effect list" where
  "mergeData rt cfg benchmarkData productData statsData =
     (if benchmarkData \<noteq> [] then
        (case mergeTables rt cfg benchmarkData productData statsData of
           Inl e \<Rightarrow> Inl e
         | Inr (output, supplemental_feed) \<Rightarrow>
             Inr (PushToSheets ''benchmark data'' output
                  # (if ACTIVATE_LABELS cfg
                     then [PushToSheets ''output - supplemental feed'' supplemental_feed]
                     else [])))
      else Inr [Log ''No price benchmark data retrieved''])"

subsection \<open>The records of the data model\<close>

text \<open>
  A benchmark row as the report query of \<open>getPriceBenchmark\<close> returns it, a product as
  \<open>getProducts\<close> stores it and a statistics entry as \<open>getStats\<close> stores it, built from
  typed records.
\<close>

record BenchmarkRecord =
  productId :: string
  offerId :: string
  title :: string
  brand :: string
  priceMicros :: int
  currencyCode :: string
  benchmarkPriceMicros :: int
  benchmarkCurrencyCode :: string
  countryCode :: string

record ProductRecord =
  stockQuantity :: val
  availability :: string

record StatRecord =
  impressions :: val
  clicks :: val

definition benchmarkRow :: "BenchmarkRecord \<Rightarrow> val" where
  "benchmarkRow b =
     VObj [(''productView'',
            VObj [(''id'', VStr (productId b)), (''offerId'', VStr (offerId b)),
                  (''title'', VStr (title b)), (''brand'', VStr (brand b)),
                  (''priceMicros'', VNum (Fin (of_int (priceMicros b)))),
                  (''currencyCode'', VStr (currencyCode b))]),
           (''priceCompetitiveness'',
            VObj [(''countryCode'', VStr (countryCode b)),
                  (''benchmarkPriceMicros'', VNum (Fin (of_int (benchmarkPriceMicros b)))),
                  (''benchmarkPriceCurrencyCode'', VStr (benchmarkCurrencyCode b))])]"

definition productObject :: "ProductRecord \<Rightarrow> val" where
  "productObject p =
     VObj [(''stockQuantity'', stockQuantity p), (''availability'', VStr (availability p))]"

definition statObject :: "StatRecord \<Rightarrow> val" where
  "statObject s = VObj [(''impressions'', impressions s), (''clicks'', clicks s)]"

subsection \<open>The eligibility rule, as the data model states it\<close>

text \<open>
  These definitions follow the wording of the specification on typed records; the
  theorems below compare them with \<open>mergeData\<close>. A stock quantity that is not numeric
  counts as zero; the empty string denotes zero already. In a detail row the
  impressions and clicks of an offer without a statistics record are 0, unless the
  \<open>offerId\<close> is a name that \<open>Object.prototype\<close> defines (\<open>inherited_name\<close>): then
  \<open>statsData[offerId]\<close> is a built-in object, and the two cells are \<open>undefined\<close>.
\<close>

definition relativePrice_of :: "BenchmarkRecord \<Rightarrow> number" where
  "relativePrice_of b =
     js_sub (js_div (Fin (of_int (priceMicros b))) (Fin (of_int (benchmarkPriceMicros b)))) (Fin 1)"

definition label_of :: "config \<Rightarrow> BenchmarkRecord \<Rightarrow> string" where
  "label_of cfg b = calculateLabel cfg (relativePrice_of b)"

definition stock_value :: "runtime \<Rightarrow> val \<Rightarrow> real" where
  "stock_value rt q = (case ToNumber rt q of NaN \<Rightarrow> 0 | Fin r \<Rightarrow> r)"

definition stock_policy :: "runtime \<Rightarrow> config \<Rightarrow> val \<Rightarrow> bool" where
  "stock_policy rt cfg q = (\<not> STOCK_ENABLED cfg \<or> STOCK_THRESHOLD cfg \<le> stock_value rt q)"

definition eligible :: "runtime \<Rightarrow> config \<Rightarrow> (string \<times> ProductRecord) list \<Rightarrow> BenchmarkRecord \<Rightarrow> bool" where
  "eligible rt cfg products b =
     (0 < benchmarkPriceMicros b
      \<and> (case map_of products (productId b) of
           None \<Rightarrow> False
         | Some p \<Rightarrow> label_of cfg b \<in> set (EXPORT_LABELS cfg) \<and> availability p = ''in stock''
                     \<and> stock_policy rt cfg (stockQuantity p)))"

definition inherited_name :: "string \<Rightarrow> bool" where
  "inherited_name k = (k = ''__proto__'' \<or> k \<in> set (map fst Object_prototype))"

definition detail_row :: "config \<Rightarrow> ProductRecord \<Rightarrow> StatRecord option \<Rightarrow> BenchmarkRecord \<Rightarrow> val list" where
  "detail_row cfg p s b =
     [VStr (offerId b), VStr (title b), VStr (brand b),
      VNum (js_div (Fin (of_int (priceMicros b))) (Fin 1000000)),
      VStr (currencyCode b), VStr (countryCode b),
      VNum (js_div (Fin (of_int (benchmarkPriceMicros b))) (Fin 1000000)),
      VNum (relativePrice_of b), VStr (label_of cfg b),
      (case s of
         None \<Rightarrow> if inherited_name (offerId b) then VUndefined else VNum (Fin 0)
       | Some r \<Rightarrow> impressions r),
      (case s of
         None \<Rightarrow> if inherited_name (offerId b) then VUndefined else VNum (Fin 0)
       | Some r \<Rightarrow> clicks r)]
     @ (if STOCK_ENABLED cfg then [stockQuantity p] else [])"

definition supplemental_row :: "config \<Rightarrow> BenchmarkRecord \<Rightarrow> val list" where
  "supplemental_row cfg b = [VStr (offerId b), VStr (label_of cfg b)]"

text \<open>The objects that hold the typed records as their own properties.\<close>

definition productData_of :: "(string \<times> ProductRecord) list \<Rightarrow> object" where
  "productData_of ps =
     \<lparr>properties = map (\<lambda>(k, p). (k, productObject p)) ps, prototype = None\<rparr>"

definition statsData_of :: "(string \<times> StatRecord) list \<Rightarrow> object" where
  "statsData_of ss =
     \<lparr>properties = map (\<lambda>(k, s). (k, statObject s)) ss, prototype = None\<rparr>"

section \<open>The paginated fetchers\<close>

text \<open>
  A parsed response of the Content API: \<open>results\<close> (report), \<open>resources\<close> (product
  listing), \<open>nextPageToken\<close> and \<open>error\<close> with its code and message; \<open>None\<close> is a
  property that is absent. The endpoint is the list of the responses it gives to the
  successive calls. When the list ends while the loop asks for one more response, the run
  is \<open>Pending\<close>.
\<close>

record response =
  results :: "val list option"
  resources :: "val list option"
  nextPageToken :: "string option"
  error :: "(int \<times> string) option"

record request =
  query :: string
  pageSize :: nat
  pageToken :: string

text \<open>
  The lines of \<open>Logger.log\<close>: \<open>Error(code): message\<close>,
  \<open>Internal error. Trying again #n\<close>, \<open>Got n so far...\<close>, \<open>Final results: n rows.\<close>
\<close>

datatype log_entry = LogError int string | LogRetry nat | LogGot nat | LogFinal nat

datatype 'a outcome = Returned 'a | Thrown js_error | Pending

text \<open>
  The variables of the loop (\<open>pageToken\<close>, \<open>fullResults\<close>, \<open>nTries\<close>), the requests
  sent and the lines logged so far. \<open>cursor = None\<close> is a \<open>pageToken\<close> that is
  \<open>undefined\<close>: the test \<open>pageToken != null\<close> of the \<open>while\<close> fails.
\<close>

record fetch_state =
  cursor :: "string option"
  fullResults :: "val list"
  nTries :: nat
  requests :: "request list"
  logs :: "log_entry list"

definition PAGE_SIZE :: nat where
  "PAGE_SIZE = 1000"

definition maxTries :: nat where
  "maxTries = 3"

definition initial_state :: fetch_state where
  "initial_state = \<lparr>cursor = Some [], fullResults = [], nTries = 0, requests = [], logs = []\<rparr>"

text \<open>After the loop: the final log line and \<open>return fullResults\<close>.\<close>

definition finish :: "fetch_state \<Rightarrow> val list outcome \<times> fetch_state" where
  "finish st =
     (Returned (fullResults st), st\<lparr>logs := logs st @ [LogFinal (length (fullResults st))]\<rparr>)"

text \<open>\<open>downloadReport(api, merchantId, query)\<close>: the \<open>while\<close> loop, one response per turn.\<close>

fun downloadReport_loop ::
  "string \<Rightarrow> response list \<Rightarrow> fetch_state \<Rightarrow> val list outcome \<times> fetch_state" where
  "downloadReport_loop q [] st =
     (case cursor st of None \<Rightarrow> finish st | Some tok \<Rightarrow> (Pending, st))"
| "downloadReport_loop q (r # rs) st =
     (case cursor st of
        None \<Rightarrow> finish st
      | Some tok \<Rightarrow>
          let st1 = st\<lparr>requests := requests st
                        @ [\<lparr>query = q, pageSize = PAGE_SIZE, pageToken = tok\<rparr>]\<rparr>
          in (case results r of
                Some page \<Rightarrow>
                  downloadReport_loop q rs
                    (st1\<lparr>cursor := nextPageToken r, fullResults := fullResults st1 @ page\<rparr>)
              | None \<Rightarrow>
                  (case error r of
                     Some (code, message) \<Rightarrow>
                       let st2 = st1\<lparr>logs := logs st1 @ [LogError code message]\<rparr>
                       in if code = 500 then
                            if nTries st2 < maxTries then
                              downloadReport_loop q rs
                                (st2\<lparr>logs := logs st2 @ [LogRetry (nTries st2 + 1)],
                                     nTries := nTries st2 + 1\<rparr>)
                            else
                              (Thrown (Error ''Internal error getting report. Please try it again later''),
                               st2)
                          else finish st2
                   | None \<Rightarrow> finish st1)))"

definition downloadReport :: "string \<Rightarrow> response list \<Rightarrow> val list outcome \<times> fetch_state" where
  "downloadReport q rs = downloadReport_loop q rs initial_state"

text \<open>
  \<open>getProductList(api, merchantId, maxResults)\<close>: the same loop on \<open>resources\<close>, without
  a retry counter; a code 500 logs the count and throws.
\<close>

fun getProductList_loop ::
  "nat \<Rightarrow> response list \<Rightarrow> fetch_state \<Rightarrow> val list outcome \<times> fetch_state" where
  "getProductList_loop maxResults [] st =
     (case cursor st of None \<Rightarrow> finish st | Some tok \<Rightarrow> (Pending, st))"
| "getProductList_loop maxResults (r # rs) st =
     (case cursor st of
        None \<Rightarrow> finish st
      | Some tok \<Rightarrow>
          let st1 = st\<lparr>requests := requests st
                        @ [\<lparr>query = [], pageSize = maxResults, pageToken = tok\<rparr>]\<rparr>
          in (case resources r of
                Some page \<Rightarrow>
                  getProductList_loop maxResults rs
                    (st1\<lparr>cursor := nextPageToken r, fullResults := fullResults st1 @ page\<rparr>)
              | None \<Rightarrow>
                  (case error r of
                     Some (code, message) \<Rightarrow>
                       let st2 = st1\<lparr>logs := logs st1 @ [LogError code message]\<rparr>
                       in if code = 500 then
                            (Thrown (Error ''Internal error when getting report. Please try it again''),
                             st2\<lparr>logs := logs st2 @ [LogGot (length (fullResults st2))]\<rparr>)
                          else finish st2
                   | None \<Rightarrow> finish st1)))"

definition getProductList :: "nat \<Rightarrow> response list \<Rightarrow> val list outcome \<times> fetch_state" where
  "getProductList maxResults rs = getProductList_loop maxResults rs initial_state"

text \<open>Kinds of responses, for the statements about runs.\<close>

definition continuing_page :: "response \<Rightarrow> bool" where
  "continuing_page r = (results r \<noteq> None \<and> nextPageToken r \<noteq> None)"

definition last_page :: "response \<Rightarrow> bool" where
  "last_page r = (results r \<noteq> None \<and> nextPageToken r = None)"

definition retryable_error :: "response \<Rightarrow> bool" where
  "retryable_error r = (results r = None \<and> (case error r of Some (code, message) \<Rightarrow> code = 500 | None \<Rightarrow> False))"

definition page_results :: "response \<Rightarrow> val list" where
  "page_results r = (case results r of Some page \<Rightarrow> page | None \<Rightarrow> [])"

text \<open>The log lines that hold no number of results: the error and the retry lines.\<close>

definition count_free :: "log_entry \<Rightarrow> bool" where
  "count_free e = (case e of LogError code message \<Rightarrow> True | LogRetry n \<Rightarrow> True | _ \<Rightarrow> False)"

definition retries_logged :: "fetch_state \<Rightarrow> log_entry list" where
  "retries_logged st = filter (\<lambda>e. case e of LogRetry n \<Rightarrow> True | _ \<Rightarrow> False) (logs st)"

definition page :: "val list \<Rightarrow> string option \<Rightarrow> response" where
  "page rows next = \<lparr>results = Some rows, resources = None, nextPageToken = next, error = None\<rparr>"

definition failure :: "int \<Rightarrow> string \<Rightarrow> response" where
  "failure code message =
     \<lparr>results = None, resources = None, nextPageToken = None, error = Some (code, message)\<rparr>"

section \<open>The statistics report\<close>

text \<open>
  \<open>row.split(':')\<close>, the element \<open>[3]\<close> of the result as string concatenation reads it
  (\<open>undefined\<close> when there is none), and \<open>[...new Set(idList)]\<close>, which keeps the first
  occurrence of every element.
\<close>

fun split_at :: "char \<Rightarrow> string \<Rightarrow> string list" where
  "split_at c [] = [[]]"
| "split_at c (x # xs) =
     (if x = c then [] # split_at c xs
      else (case split_at c xs of [] \<Rightarrow> [[x]] | w # ws \<Rightarrow> (x # w) # ws))"








section \<open>Reading an HTTP response\<close>

text \<open>
  An HTTP response with the two texts the scripts read from it. \<open>JSON.parse\<close> throws a
  \<open>SyntaxError\<close> unless the text starts, after white space, with a character that can
  begin a JSON value; what it returns on the other texts is the parameter \<open>parser\<close>.
\<close>

record HTTPResponse =
  toString :: string
  getContentText :: string

definition startsWith :: "string \<Rightarrow> string \<Rightarrow> bool" where
  "startsWith s p = (take (length p) s = p)"

definition json_space :: "char \<Rightarrow> bool" where
  "json_space c = (c = CHR 0x20 \<or> c = CHR 0x09 \<or> c = CHR 0x0A \<or> c = CHR 0x0D)"

definition json_start :: "char \<Rightarrow> bool" where
  "json_start c = (c \<in> set ''{[-0123456789tfn'' \<or> c = CHR 0x22)"

definition JSON_parse :: "(string \<Rightarrow> js_error + val) \<Rightarrow> string \<Rightarrow> js_error + val" where
  "JSON_parse parser s =
     (case dropWhile json_space s of
        [] \<Rightarrow> Inl SyntaxError
      | c # cs \<Rightarrow> if json_start c then parser s else Inl SyntaxError)"

text \<open>\<open>GoogleAdsApi.getResultFrom(httpResponse)\<close> (\<open>google_ads_api.js\<close>).\<close>

definition getResultFrom :: "(string \<Rightarrow> js_error + val) \<Rightarrow> HTTPResponse \<Rightarrow> js_error + val" where
  "getResultFrom parser httpResponse =
     (if startsWith (toString httpResponse) ''<!DOCTYPE html>'' then Inr (VObj [])
      else JSON_parse parser (getContentText httpResponse))"

text \<open>
  \<open>MerchantCenterAPI.call(service, method, payload)\<close> (\<open>merchant_center.js\<close>):
  \<open>fetch\<close> is \<open>UrlFetchApp.fetch\<close> on the address, the method and the payload (none when
  \<open>payload == ''\<close>); both branches parse the content text. \<open>getReport\<close> posts its entries
  to the report search of the account.
\<close>

definition MerchantCenterAPI_call ::
  "runtime \<Rightarrow> (string \<Rightarrow> js_error + val) \<Rightarrow> (string \<Rightarrow> string \<Rightarrow> val option \<Rightarrow> HTTPResponse)
     \<Rightarrow> string \<Rightarrow> string \<Rightarrow> val \<Rightarrow> js_error + val" where
  "MerchantCenterAPI_call rt parser fetch service method payload =
     (if loose_eq_string rt payload [] then
        JSON_parse parser
          (getContentText
             (fetch (''https://shoppingcontent.googleapis.com/content/v2.1/'' @ service) method None))
      else
        JSON_parse parser
          (getContentText
             (fetch (''https://shoppingcontent.googleapis.com/content/v2.1/'' @ service) method
                (Some payload))))"

definition getReport ::
  "runtime \<Rightarrow> (string \<Rightarrow> js_error + val) \<Rightarrow> (string \<Rightarrow> string \<Rightarrow> val option \<Rightarrow> HTTPResponse)
     \<Rightarrow> string \<Rightarrow> val \<Rightarrow> js_error + val" where
  "getReport rt parser fetch mcId entries =
     MerchantCenterAPI_call rt parser fetch (mcId @ ''/reports/search'') ''post'' entries"

section \<open>Rebuilding a nested object\<close>

text \<open>
  Modelled from the spec: \<open>unflatten\<close>, the reconstruction of a nested mapping from the
  dotted-path keys of a flattened object. The repository has no such function; the
  specification names it only in the round-trip property of \<open>flatten\<close>. Each key is
  split at the dots and its value is stored under that path, entry by entry, in a mapping
  that starts empty; an object met on the way is entered, anything else is replaced by a
  new object.
\<close>

fun insert_path :: "string list \<Rightarrow> val \<Rightarrow> (string \<times> val) list \<Rightarrow> (string \<times> val) list" where
  "insert_path [] v ms = ms"
| "insert_path [k] v ms = AList.update k v ms"
| "insert_path (k # k' # ks) v ms =
     AList.update k
       (VObj (insert_path (k' # ks) v (case map_of ms k of Some (VObj sub) \<Rightarrow> sub | _ \<Rightarrow> [])))
       ms"

fun unflatten :: "val \<Rightarrow> val" where
  "unflatten (VObj entries) =
     VObj (fold (\<lambda>(key, v) ms. insert_path (split_at CHR ''.'' key) v ms) entries [])"
| "unflatten v = v"

text \<open>
  The nested mappings on which the round trip holds. No member is an array, as the
  specification says. Every object has distinct keys, as every object does. No key holds
  a dot, no object below the top level is without keys, and at the top level no key is
  empty and no member other than an object stands under the key \<open>__proto__\<close>.
\<close>

definition plain_key :: "string \<Rightarrow> bool" where
  "plain_key k = (CHR ''.'' \<notin> set k)"

fun plain_member :: "val \<Rightarrow> bool" where
  "plain_member (VObj ms) =
     (ms \<noteq> [] \<and> distinct (map fst ms) \<and> list_all (\<lambda>(k, v). plain_key k \<and> plain_member v) ms)"
| "plain_member (VArr xs) = False"
| "plain_member v = True"

definition plain_members :: "(string \<times> val) list \<Rightarrow> bool" where
  "plain_members ms =
     (distinct (map fst ms) \<and> list_all (\<lambda>(k, v). plain_key k \<and> plain_member v) ms)"

fun top_member :: "string \<times> val \<Rightarrow> bool" where
  "top_member (k, VObj ms) = (k \<noteq> [])"
| "top_member (k, v) = (k \<noteq> [] \<and> k \<noteq> ''__proto__'')"

definition plain_mapping :: "val \<Rightarrow> bool" where
  "plain_mapping v =
     (case v of VObj ms \<Rightarrow> plain_members ms \<and> list_all top_member ms | _ \<Rightarrow> False)"

text \<open>
  For the proof: the dotted key of a path, the leaves of a value with their paths, and
  the mapping that storing a list of paths gives. \<open>fresh p base\<close> says that nothing is
  stored under the path \<open>p\<close> in \<open>base\<close>.
\<close>

fun join_dot :: "string list \<Rightarrow> string" where
  "join_dot [] = []"
| "join_dot [s] = s"
| "join_dot (s # t # ss) = s @ ''.'' @ join_dot (t # ss)"

fun paths_of :: "string list \<Rightarrow> val \<Rightarrow> (string list \<times> val) list" where
  "paths_of p (VObj ms) = concat (map (\<lambda>(k, v). paths_of (p @ [k]) v) ms)"
| "paths_of p v = [(p, v)]"

definition dotted :: "string list \<times> val \<Rightarrow> string \<times> val" where
  "dotted e = (join_dot (fst e), snd e)"

definition put_paths ::
  "(string list \<times> val) list \<Rightarrow> (string \<times> val) list \<Rightarrow> (string \<times> val) list" where
  "put_paths es base = fold (\<lambda>(q, x) ms. insert_path q x ms) es base"

fun fresh :: "string list \<Rightarrow> (string \<times> val) list \<Rightarrow> bool" where
  "fresh [] base = True"
| "fresh [k] base = (map_of base k = None)"
| "fresh (k # k' # ks) base =
     (case map_of base k of
        None \<Rightarrow> True
      | Some (VObj sub) \<Rightarrow> fresh (k' # ks) sub
      | Some _ \<Rightarrow> False)"

section \<open>Example data\<close>

text \<open>
  A runtime for the closed examples: it reads a string of decimal digits as the natural
  number it writes and prints a natural number in decimal notation. The examples convert
  nothing else.
\<close>

definition digits_runtime :: runtime where
  "digits_runtime =
     \<lparr>StringToNumber =
        (\<lambda>s. if s \<noteq> [] \<and> list_all (\<lambda>c. c \<in> set ''0123456789'') s
             then Fin (of_nat (foldl (\<lambda>n c. 10 * n + (of_char c - 48)) 0 s)) else NaN),
      NumberToString =
        (\<lambda>r. if r = of_nat (nat \<lfloor>r\<rfloor>) then decimal (nat \<lfloor>r\<rfloor>) else ''NaN'')\<rparr>"

text \<open>
  The end-to-end example of the specification: thresholds \<open>-0.1\<close>, \<open>0.05\<close>, \<open>0.05\<close> (the
  doubles these decimals denote), allow-list \<open>['Above']\<close>, stock tracking disabled.
\<close>

definition spec_config :: config where
  "spec_config =
     \<lparr>BELOW_BENCHMARK_RULE = - fl (1 / 10), BELOW_BENCHMARK_NAME = ''Below'',
      AT_BENCHMARK_RULE = fl (5 / 100), AT_BENCHMARK_NAME = ''At'',
      ABOVE_BENCHMARK_RULE = fl (5 / 100), ABOVE_BENCHMARK_NAME = ''Above'',
      EXPORT_LABELS = [''Above''], STOCK_ENABLED = False, STOCK_ATTRIBUTE = VStr ''stock'',
      STOCK_THRESHOLD = 0, CUSTOM_LABEL_NUMBER = VNum (Fin 0), ACTIVATE_LABELS = True,
      COUNTRY_FILTER = ''US''\<rparr>"

definition spec_benchmark :: BenchmarkRecord where
  "spec_benchmark =
     \<lparr>productId = ''1'', offerId = ''O1'', title = ''T'', brand = ''B'', priceMicros = 1100000,
      currencyCode = ''USD'', benchmarkPriceMicros = 1000000, benchmarkCurrencyCode = ''USD'',
      countryCode = ''US''\<rparr>"

definition spec_products :: "(string \<times> ProductRecord) list" where
  "spec_products = [(''1'', \<lparr>stockQuantity = VNum (Fin 5), availability = ''in stock''\<rparr>)]"

definition spec_stats :: "(string \<times> StatRecord) list" where
  "spec_stats = [(''O1'', \<lparr>impressions = VNum (Fin 10), clicks = VNum (Fin 2)\<rparr>)]"

text \<open>The detail row of the example, with the cell of the relative price left open.\<close>

definition spec_detail_row :: "real \<Rightarrow> val list" where
  "spec_detail_row x =
     [VStr ''O1'', VStr ''T'', VStr ''B'', VNum (Fin (fl (11 / 10))), VStr ''USD'', VStr ''US'',
      VNum (Fin 1), VNum (Fin x), VStr ''Above'', VNum (Fin 10), VNum (Fin 2)]"

text \<open>
  A configuration whose allow-list holds the empty string and whose Above rule starts
  at 1, and a record priced at twice its benchmark: its relative price is 1, which no
  rule labels.
\<close>

definition gap_config :: config where
  "gap_config = spec_config\<lparr>ABOVE_BENCHMARK_RULE := 1, EXPORT_LABELS := [''Above'', []]\<rparr>"

definition gap_benchmark :: BenchmarkRecord where
  "gap_benchmark = spec_benchmark\<lparr>priceMicros := 2000000\<rparr>"

text \<open>Stock tracking enabled with threshold 3, and a second record without a benchmark price.\<close>

definition stock_config :: config where
  "stock_config = spec_config\<lparr>STOCK_ENABLED := True, STOCK_THRESHOLD := 3\<rparr>"

definition unpriced_benchmark :: BenchmarkRecord where
  "unpriced_benchmark = spec_benchmark\<lparr>offerId := ''O2'', benchmarkPriceMicros := 0\<rparr>"



text \<open>Responses of the report endpoint: a server error, a page with a next token, a last page.\<close>

definition server_error :: response where
  "server_error = failure 500 ''Internal error encountered.''"

definition first_page :: response where
  "first_page = page [VStr ''row1'', VStr ''row2''] (Some ''token1'')"

definition final_page :: response where
  "final_page = page [VStr ''row3''] None"

text \<open>An HTML page where a JSON answer was expected.\<close>

definition html_response :: HTTPResponse where
  "html_response =
     \<lparr>toString = ''<!DOCTYPE html><html><body>Sign in</body></html>'',
      getContentText = ''<!DOCTYPE html><html><body>Sign in</body></html>''\<rparr>"

text \<open>
  A nested mapping of depth 3, with an empty key below the top level and an object under
  the top-level key \<open>__proto__\<close>.
\<close>

definition nested_example :: val where
  "nested_example =
     VObj [(''productView'',
            VObj [(''id'', VStr ''1''), (''price'', VObj [(''micros'', VNum (Fin 5))]),
                  ([], VBool True)]),
           (''note'', VNull),
           (''__proto__'', VObj [(''b'', VNum (Fin 1))])]"

section \<open>Properties of the flattener\<close>

lemma assign_props_Nil: "assign_props t [] = t"
  by (simp add: assign_props_def)

lemma update_fresh: "k \<notin> fst ` set t \<Longrightarrow> AList.update k v t = t @ [(k, v)]"
  by (induction t) auto

text \<open>
  C10. A member whose value is an object with no own keys contributes nothing to the
  flattened object: flattening the object gives what flattening it without that member
  gives, whatever the path under which the object stands, so no key of the output
  belongs to the member. \<open>flatten({a: {}, b: 1})\<close> is \<open>{b: 1}\<close>, a top-level empty
  object flattens to the empty object, and two different inputs have the same flattened
  form, so the input cannot be recovered from it.
\<close>

theorem flatten_erases_empty_member:
  "flattenHelper (VObj (ms1 @ (k, VObj []) # ms2)) field = flattenHelper (VObj (ms1 @ ms2)) field
   \<and> flatten (VObj (ms1 @ (k, VObj []) # ms2)) = flatten (VObj (ms1 @ ms2))
   \<and> flatten (VObj [(''a'', VObj []), (''b'', VNum (Fin 1))]) = VObj [(''b'', VNum (Fin 1))]
   \<and> flatten (VObj []) = VObj []
   \<and> VObj [(''a'', VObj []), (''b'', VNum (Fin 1))] \<noteq> VObj [(''b'', VNum (Fin 1))]
   \<and> flatten (VObj [(''a'', VObj []), (''b'', VNum (Fin 1))]) = flatten (VObj [(''b'', VNum (Fin 1))])"
proof -
  have step: "flattenHelper (VObj (ms1 @ (k, VObj []) # ms2)) f = flattenHelper (VObj (ms1 @ ms2)) f"
    for f
    by (simp add: Object_assign_def assign_props_Nil)
  have ex: "flatten (VObj [(''a'', VObj []), (''b'', VNum (Fin 1))]) = VObj [(''b'', VNum (Fin 1))]"
    by (simp add: flatten_def Object_assign_def assign_props_def)
  have ex': "flatten (VObj [(''b'', VNum (Fin 1))]) = VObj [(''b'', VNum (Fin 1))]"
    by (simp add: flatten_def Object_assign_def assign_props_def)
  have top: "flatten (VObj []) = VObj []"
    by (simp add: flatten_def Object_assign_def)
  have ne: "VObj [(''a'', VObj []), (''b'', VNum (Fin 1))] \<noteq> VObj [(''b'', VNum (Fin 1))]"
    by simp
  have step': "flatten (VObj (ms1 @ (k, VObj []) # ms2)) = flatten (VObj (ms1 @ ms2))"
    unfolding flatten_def by (rule step)
  have same: "flatten (VObj [(''a'', VObj []), (''b'', VNum (Fin 1))]) = flatten (VObj [(''b'', VNum (Fin 1))])"
    by (simp only: ex ex')
  show ?thesis
    by (simp only: step [of field] step' ex ex' top ne simp_thms)
qed

section \<open>Properties of the reconciler\<close>

lemma flatten_benchmarkRow:
  "flatten (benchmarkRow b) =
     VObj [(''productView.id'', VStr (productId b)), (''productView.offerId'', VStr (offerId b)),
           (''productView.title'', VStr (title b)), (''productView.brand'', VStr (brand b)),
           (''productView.priceMicros'', VNum (Fin (of_int (priceMicros b)))),
           (''productView.currencyCode'', VStr (currencyCode b)),
           (''priceCompetitiveness.countryCode'', VStr (countryCode b)),
           (''priceCompetitiveness.benchmarkPriceMicros'', VNum (Fin (of_int (benchmarkPriceMicros b)))),
           (''priceCompetitiveness.benchmarkPriceCurrencyCode'', VStr (benchmarkCurrencyCode b))]"
  by (simp add: flatten_def benchmarkRow_def Object_assign_def assign_props_def)

lemma flatRow_fields:
  "getProp (flatten (benchmarkRow b)) ''productView.id'' = VStr (productId b)"
  "getProp (flatten (benchmarkRow b)) ''productView.offerId'' = VStr (offerId b)"
  "getProp (flatten (benchmarkRow b)) ''productView.title'' = VStr (title b)"
  "getProp (flatten (benchmarkRow b)) ''productView.brand'' = VStr (brand b)"
  "getProp (flatten (benchmarkRow b)) ''productView.priceMicros'' = VNum (Fin (of_int (priceMicros b)))"
  "getProp (flatten (benchmarkRow b)) ''productView.currencyCode'' = VStr (currencyCode b)"
  "getProp (flatten (benchmarkRow b)) ''priceCompetitiveness.countryCode'' = VStr (countryCode b)"
  "getProp (flatten (benchmarkRow b)) ''priceCompetitiveness.benchmarkPriceMicros'' =
     VNum (Fin (of_int (benchmarkPriceMicros b)))"
  by (simp_all add: flatten_benchmarkRow getOwn_def)

lemma flatRow_not_nullish: "\<not> nullish (flatten (benchmarkRow b))"
  by (simp add: flatten_benchmarkRow nullish_def)

lemma map_of_objects:
  "map_of (map (\<lambda>(k, p). (k, f p)) ps) k = map_option f (map_of ps k)"
  by (induction ps) auto

lemma getMember_productData:
  "getMember (productData_of ps) k =
     (case map_of ps k of None \<Rightarrow> inheritedMember [] k | Some p \<Rightarrow> productObject p)"
  by (simp add: getMember_def productData_of_def map_of_objects split: option.splits)

lemma getMember_statsData:
  "getMember (statsData_of ss) k =
     (case map_of ss k of None \<Rightarrow> inheritedMember [] k | Some s \<Rightarrow> statObject s)"
  by (simp add: getMember_def statsData_of_def map_of_objects split: option.splits)

lemma Object_prototype_functions:
  "getOwn Object_prototype k = VUndefined \<or> (\<exists>n. getOwn Object_prototype k = VFun n)"
  by (simp add: getOwn_def Object_prototype_def)

lemma inheritedMember_fields: "getProp (inheritedMember [] k) f = VUndefined"
  using Object_prototype_functions [of k] by (auto simp: inheritedMember_def getOwn_def)

lemma inheritedMember_truthy: "truthy (inheritedMember [] k) = inherited_name k"
  by (simp add: inheritedMember_def inherited_name_def getOwn_def Object_prototype_def)

lemma productObject_fields:
  "getProp (productObject p) ''availability'' = VStr (availability p)"
  "getProp (productObject p) ''stockQuantity'' = stockQuantity p"
  "truthy (productObject p)"
  by (simp_all add: productObject_def getOwn_def)

lemma statObject_fields:
  "getProp (statObject s) ''impressions'' = impressions s"
  "getProp (statObject s) ''clicks'' = clicks s"
  "truthy (statObject s)"
  by (simp_all add: statObject_def getOwn_def)

lemma string_number_empty: "string_number rt [] = Fin 0"
  by (simp add: string_number_def)

lemma loose_eq_empty_zero: "loose_eq_string rt v [] \<Longrightarrow> ToNumber rt v = Fin 0"
  by (cases v) (auto simp: string_number_empty elim: js_eq.elims split: if_splits)

lemma checkStock_policy: "checkStock rt cfg q = stock_policy rt cfg q"
proof (cases "ToNumber rt q")
  case NaN
  then show ?thesis
    by (auto simp: checkStock_def stock_policy_def stock_value_def)
next
  case (Fin r)
  show ?thesis
  proof (cases "loose_eq_string rt q []")
    case True
    then have "ToNumber rt q = Fin 0" by (rule loose_eq_empty_zero)
    with True show ?thesis
      by (auto simp: checkStock_def stock_policy_def stock_value_def)
  next
    case False
    with Fin show ?thesis
      by (auto simp: checkStock_def stock_policy_def stock_value_def)
  qed
qed

lemma mergeRow_typed:
  "mergeRow rt cfg (productData_of ps) (Some (statsData_of ss)) (benchmarkRow b) (outp, supp) =
     Inr (if eligible rt cfg ps b
          then (outp @ [detail_row cfg (the (map_of ps (productId b))) (map_of ss (offerId b)) b],
                supp @ [supplemental_row cfg b])
          else (outp, supp))"
proof (cases "map_of ps (productId b)")
  case None
  then show ?thesis
    by (simp add: mergeRow_def flatRow_fields flatRow_not_nullish getMember_productData
        inheritedMember_fields eligible_def Let_def)
next
  case (Some p)
  show ?thesis
  proof (cases "0 < benchmarkPriceMicros b")
    case False
    then show ?thesis
      by (simp add: mergeRow_def flatRow_fields flatRow_not_nullish eligible_def)
  next
    case True
    show ?thesis
    proof (cases "map_of ss (offerId b)")
      case None
      with Some True show ?thesis
        by (simp add: mergeRow_def flatRow_fields flatRow_not_nullish getMember_productData
            getMember_statsData productObject_fields checkStock_policy eligible_def
            inheritedMember_fields inheritedMember_truthy
            detail_row_def supplemental_row_def label_of_def relativePrice_of_def Let_def)
    next
      case (Some s)
      with \<open>map_of ps (productId b) = Some p\<close> True show ?thesis
        by (simp add: mergeRow_def flatRow_fields flatRow_not_nullish getMember_productData
            getMember_statsData productObject_fields statObject_fields checkStock_policy eligible_def
            detail_row_def supplemental_row_def label_of_def relativePrice_of_def Let_def)
    qed
  qed
qed

lemma forEach_row_typed:
  "forEach_row rt cfg (productData_of ps) (Some (statsData_of ss)) (map benchmarkRow bs) (outp, supp) =
     Inr (outp @ map (\<lambda>b. detail_row cfg (the (map_of ps (productId b))) (map_of ss (offerId b)) b)
                  (filter (eligible rt cfg ps) bs),
          supp @ map (supplemental_row cfg) (filter (eligible rt cfg ps) bs))"
  by (induction bs arbitrary: outp supp) (simp_all add: mergeRow_typed)



section \<open>Values of the rounding function\<close>

lemma fl_1_20: "fl (1 / 20) = 3602879701896397 / 72057594037927936" by code_simp
lemma fl_1_10: "fl (1 / 10) = 3602879701896397 / 36028797018963968" by code_simp
lemma fl_11_10: "fl (11 / 10) = 2476979795053773 / 2251799813685248" by code_simp
lemma fl_rel: "fl (225179981368525 / 2251799813685248) = 225179981368525 / 2251799813685248"
  by code_simp
lemma fl_1: "fl 1 = 1" by code_simp
lemma fl_2: "fl 2 = 2" by code_simp
lemma fl_499: "0 < fl (499 / 10000)" "fl (499 / 10000) < fl (1 / 20)" by code_simp+
lemma fl_501: "fl (1 / 20) < fl (501 / 10000)" by code_simp

lemmas fl_values = fl_1_20 fl_1_10 fl_11_10 fl_rel fl_1 fl_2


section \<open>Properties of the label classifier\<close>

lemma label_value:
  "calculateLabel cfg (Fin r) =
     (if r < BELOW_BENCHMARK_RULE cfg then BELOW_BENCHMARK_NAME cfg
      else if - AT_BENCHMARK_RULE cfg \<le> r \<and> r < AT_BENCHMARK_RULE cfg then AT_BENCHMARK_NAME cfg
      else if ABOVE_BENCHMARK_RULE cfg < r then ABOVE_BENCHMARK_NAME cfg
      else [])"
  by (simp add: calculateLabel_def)

lemma label_below:
  "distinct [BELOW_BENCHMARK_NAME cfg, AT_BENCHMARK_NAME cfg, ABOVE_BENCHMARK_NAME cfg, []] \<Longrightarrow>
   (calculateLabel cfg (Fin r) = BELOW_BENCHMARK_NAME cfg) = (r < BELOW_BENCHMARK_RULE cfg)"
  by (auto simp: calculateLabel_def)

lemma label_at:
  "distinct [BELOW_BENCHMARK_NAME cfg, AT_BENCHMARK_NAME cfg, ABOVE_BENCHMARK_NAME cfg, []] \<Longrightarrow>
   (calculateLabel cfg (Fin r) = AT_BENCHMARK_NAME cfg) =
     (\<not> r < BELOW_BENCHMARK_RULE cfg \<and> - AT_BENCHMARK_RULE cfg \<le> r \<and> r < AT_BENCHMARK_RULE cfg)"
  by (auto simp: calculateLabel_def)

lemma label_above:
  "distinct [BELOW_BENCHMARK_NAME cfg, AT_BENCHMARK_NAME cfg, ABOVE_BENCHMARK_NAME cfg, []] \<Longrightarrow>
   (calculateLabel cfg (Fin r) = ABOVE_BENCHMARK_NAME cfg) =
     (\<not> r < BELOW_BENCHMARK_RULE cfg
      \<and> \<not> (- AT_BENCHMARK_RULE cfg \<le> r \<and> r < AT_BENCHMARK_RULE cfg)
      \<and> ABOVE_BENCHMARK_RULE cfg < r)"
  by (auto simp: calculateLabel_def)

lemma label_none:
  "distinct [BELOW_BENCHMARK_NAME cfg, AT_BENCHMARK_NAME cfg, ABOVE_BENCHMARK_NAME cfg, []] \<Longrightarrow>
   (calculateLabel cfg (Fin r) = []) =
     (\<not> r < BELOW_BENCHMARK_RULE cfg
      \<and> \<not> (- AT_BENCHMARK_RULE cfg \<le> r \<and> r < AT_BENCHMARK_RULE cfg)
      \<and> \<not> ABOVE_BENCHMARK_RULE cfg < r)"
  by (auto simp: calculateLabel_def)

lemma label_gap:
  "BELOW_BENCHMARK_RULE cfg \<le> 0 \<Longrightarrow> 0 \<le> AT_BENCHMARK_RULE cfg \<Longrightarrow>
   AT_BENCHMARK_RULE cfg \<le> x \<Longrightarrow> x \<le> ABOVE_BENCHMARK_RULE cfg \<Longrightarrow>
   calculateLabel cfg (Fin x) = []"
  by (auto simp: calculateLabel_def)

lemma label_points_real:
  assumes "BELOW_BENCHMARK_RULE cfg \<le> 0" "AT_BENCHMARK_RULE cfg = 5 / 100"
    "ABOVE_BENCHMARK_RULE cfg = 5 / 100"
  shows "calculateLabel cfg (Fin 0) = AT_BENCHMARK_NAME cfg
       \<and> calculateLabel cfg (Fin (499 / 10000)) = AT_BENCHMARK_NAME cfg
       \<and> calculateLabel cfg (Fin (5 / 100)) = []
       \<and> calculateLabel cfg (Fin (501 / 10000)) = ABOVE_BENCHMARK_NAME cfg"
  using assms by (simp add: calculateLabel_def)

lemma label_points_double:
  assumes "BELOW_BENCHMARK_RULE cfg \<le> 0" "AT_BENCHMARK_RULE cfg = fl (5 / 100)"
    "ABOVE_BENCHMARK_RULE cfg = fl (5 / 100)"
  shows "calculateLabel cfg (Fin 0) = AT_BENCHMARK_NAME cfg
       \<and> calculateLabel cfg (Fin (fl (499 / 10000))) = AT_BENCHMARK_NAME cfg
       \<and> calculateLabel cfg (Fin (fl (5 / 100))) = []
       \<and> calculateLabel cfg (Fin (fl (501 / 10000))) = ABOVE_BENCHMARK_NAME cfg"
proof -
  have "0 < fl (1 / 20)" by (simp add: fl_values)
  with assms fl_499 fl_501 show ?thesis
    by (auto simp: calculateLabel_def)
qed

text \<open>
  C2. For every real relative price and thresholds \<open>below \<le> 0\<close>, \<open>at \<ge> 0\<close>,
  \<open>above \<ge> 0\<close> (and label names that differ from each other and from the empty
  string, so that the returned string tells the rule), \<open>calculateLabel\<close> returns the
  Below label iff \<open>r < below\<close>; otherwise the At label iff \<open>- at \<le> r < at\<close>; otherwise
  the Above label iff \<open>r > above\<close>; otherwise the empty label. With \<open>at = above = 0.05\<close>
  (read as the exact decimal or as the double), 0 and 0.0499 give At, 0.05 gives the
  empty label and 0.0501 gives Above; and when \<open>at < above\<close> every relative price in
  \<open>[at, above]\<close> gets the empty label.
\<close>

theorem calculateLabel_rules:
  assumes "BELOW_BENCHMARK_RULE cfg \<le> 0" and "0 \<le> AT_BENCHMARK_RULE cfg"
    and "0 \<le> ABOVE_BENCHMARK_RULE cfg"
    and "distinct [BELOW_BENCHMARK_NAME cfg, AT_BENCHMARK_NAME cfg, ABOVE_BENCHMARK_NAME cfg, []]"
  shows
    "calculateLabel cfg (Fin r) =
       (if r < BELOW_BENCHMARK_RULE cfg then BELOW_BENCHMARK_NAME cfg
        else if - AT_BENCHMARK_RULE cfg \<le> r \<and> r < AT_BENCHMARK_RULE cfg then AT_BENCHMARK_NAME cfg
        else if ABOVE_BENCHMARK_RULE cfg < r then ABOVE_BENCHMARK_NAME cfg
        else [])
     \<and> ((calculateLabel cfg (Fin r) = BELOW_BENCHMARK_NAME cfg) = (r < BELOW_BENCHMARK_RULE cfg))
     \<and> ((calculateLabel cfg (Fin r) = AT_BENCHMARK_NAME cfg) =
          (\<not> r < BELOW_BENCHMARK_RULE cfg \<and> - AT_BENCHMARK_RULE cfg \<le> r
           \<and> r < AT_BENCHMARK_RULE cfg))
     \<and> ((calculateLabel cfg (Fin r) = ABOVE_BENCHMARK_NAME cfg) =
          (\<not> r < BELOW_BENCHMARK_RULE cfg
           \<and> \<not> (- AT_BENCHMARK_RULE cfg \<le> r \<and> r < AT_BENCHMARK_RULE cfg)
           \<and> ABOVE_BENCHMARK_RULE cfg < r))
     \<and> ((calculateLabel cfg (Fin r) = []) =
          (\<not> r < BELOW_BENCHMARK_RULE cfg
           \<and> \<not> (- AT_BENCHMARK_RULE cfg \<le> r \<and> r < AT_BENCHMARK_RULE cfg)
           \<and> \<not> ABOVE_BENCHMARK_RULE cfg < r))
     \<and> (AT_BENCHMARK_RULE cfg = 5 / 100 \<and> ABOVE_BENCHMARK_RULE cfg = 5 / 100 \<longrightarrow>
          calculateLabel cfg (Fin 0) = AT_BENCHMARK_NAME cfg
          \<and> calculateLabel cfg (Fin (499 / 10000)) = AT_BENCHMARK_NAME cfg
          \<and> calculateLabel cfg (Fin (5 / 100)) = []
          \<and> calculateLabel cfg (Fin (501 / 10000)) = ABOVE_BENCHMARK_NAME cfg)
     \<and> (AT_BENCHMARK_RULE cfg = fl (5 / 100) \<and> ABOVE_BENCHMARK_RULE cfg = fl (5 / 100) \<longrightarrow>
          calculateLabel cfg (Fin 0) = AT_BENCHMARK_NAME cfg
          \<and> calculateLabel cfg (Fin (fl (499 / 10000))) = AT_BENCHMARK_NAME cfg
          \<and> calculateLabel cfg (Fin (fl (5 / 100))) = []
          \<and> calculateLabel cfg (Fin (fl (501 / 10000))) = ABOVE_BENCHMARK_NAME cfg)
     \<and> (AT_BENCHMARK_RULE cfg < ABOVE_BENCHMARK_RULE cfg \<longrightarrow>
          (\<forall>x. AT_BENCHMARK_RULE cfg \<le> x \<and> x \<le> ABOVE_BENCHMARK_RULE cfg \<longrightarrow>
               calculateLabel cfg (Fin x) = []))"
  using assms label_value [of cfg r] label_below [of cfg r] label_at [of cfg r] label_above [of cfg r]
    label_none [of cfg r] label_points_real [of cfg] label_points_double [of cfg] label_gap [of cfg]
  by blast

text \<open>The rules at the thresholds of the example configuration, and a gap \<open>[0.05, 0.08]\<close>.\<close>

theorem calculateLabel_rules_witness:
  "calculateLabel spec_config (Fin (fl (5 / 100))) = []
   \<and> calculateLabel spec_config (Fin 0) = ''At''
   \<and> calculateLabel spec_config (Fin (fl (501 / 10000))) = ''Above''
   \<and> calculateLabel (spec_config\<lparr>ABOVE_BENCHMARK_RULE := 8 / 100\<rparr>) (Fin (6 / 100)) = []
   \<and> calculateLabel spec_config (Fin (- 2 / 10)) = ''Below''"
proof -
  have h: "BELOW_BENCHMARK_RULE spec_config \<le> 0" "0 \<le> AT_BENCHMARK_RULE spec_config"
    "0 \<le> ABOVE_BENCHMARK_RULE spec_config"
    "distinct [BELOW_BENCHMARK_NAME spec_config, AT_BENCHMARK_NAME spec_config,
               ABOVE_BENCHMARK_NAME spec_config, []]"
    by (simp_all add: spec_config_def fl_values)
  have names: "BELOW_BENCHMARK_NAME spec_config = ''Below''" "AT_BENCHMARK_NAME spec_config = ''At''"
    "ABOVE_BENCHMARK_NAME spec_config = ''Above''"
    by (simp_all add: spec_config_def)
  have rules: "AT_BENCHMARK_RULE spec_config = fl (5 / 100) \<and> ABOVE_BENCHMARK_RULE spec_config = fl (5 / 100)"
    by (simp add: spec_config_def)
  have lt: "- 2 / 10 < BELOW_BENCHMARK_RULE spec_config"
    by (simp add: spec_config_def fl_values)
  from calculateLabel_rules [OF h, of "- 2 / 10"] lt
  have "calculateLabel spec_config (Fin (- 2 / 10)) = BELOW_BENCHMARK_NAME spec_config"
    by blast
  then have b: "calculateLabel spec_config (Fin (- 2 / 10)) = ''Below''"
    by (simp only: names)
  from calculateLabel_rules [OF h, of 0] rules
  have "calculateLabel spec_config (Fin 0) = AT_BENCHMARK_NAME spec_config
     \<and> calculateLabel spec_config (Fin (fl (5 / 100))) = []
     \<and> calculateLabel spec_config (Fin (fl (501 / 10000))) = ABOVE_BENCHMARK_NAME spec_config"
    by blast
  then have p: "calculateLabel spec_config (Fin 0) = ''At''
     \<and> calculateLabel spec_config (Fin (fl (5 / 100))) = []
     \<and> calculateLabel spec_config (Fin (fl (501 / 10000))) = ''Above''"
    by (simp only: names)
  let ?c = "spec_config\<lparr>ABOVE_BENCHMARK_RULE := 8 / 100\<rparr>"
  have h': "BELOW_BENCHMARK_RULE ?c \<le> 0" "0 \<le> AT_BENCHMARK_RULE ?c" "0 \<le> ABOVE_BENCHMARK_RULE ?c"
    "distinct [BELOW_BENCHMARK_NAME ?c, AT_BENCHMARK_NAME ?c, ABOVE_BENCHMARK_NAME ?c, []]"
    by (simp_all add: spec_config_def fl_values)
  have "AT_BENCHMARK_RULE ?c < ABOVE_BENCHMARK_RULE ?c"
       "AT_BENCHMARK_RULE ?c \<le> 6 / 100" "6 / 100 \<le> ABOVE_BENCHMARK_RULE ?c"
    by (simp_all add: spec_config_def fl_values)
  with calculateLabel_rules [OF h', of 0]
  have g: "calculateLabel ?c (Fin (6 / 100)) = []" by blast
  from b p g show ?thesis by simp
qed

section \<open>What the reconciler emits\<close>

text \<open>
  C1, as the code has it. For typed benchmark records, products and a statistics object
  that is not \<open>null\<close>, the two tables of \<open>mergeData\<close> are the header rows followed by
  one row per eligible record, in the order of the input; the callback appends a row
  exactly when the record is eligible; and a record is eligible iff its
  \<open>benchmarkPriceMicros\<close> is positive, a product is stored under its \<open>productId\<close>, the
  computed label is a member of the export allow-list, the product's availability is the
  string \<open>in stock\<close>, and stock tracking is disabled or the stock quantity (zero when it
  is not numeric) is at least the threshold. The label need not be non-empty: the code
  only tests membership in the allow-list.
\<close>

theorem mergeData_emits_eligible:
  "mergeTables rt cfg (map benchmarkRow bs) (productData_of ps) (Some (statsData_of ss)) =
     Inr (output_header rt cfg
            # map (\<lambda>b. detail_row cfg (the (map_of ps (productId b))) (map_of ss (offerId b)) b)
                (filter (eligible rt cfg ps) bs),
          supplemental_header rt cfg
            # map (supplemental_row cfg) (filter (eligible rt cfg ps) bs))
   \<and> (\<forall>b outp supp.
        mergeRow rt cfg (productData_of ps) (Some (statsData_of ss)) (benchmarkRow b) (outp, supp) =
          Inr (if eligible rt cfg ps b
               then (outp @ [detail_row cfg (the (map_of ps (productId b))) (map_of ss (offerId b)) b],
                     supp @ [supplemental_row cfg b])
               else (outp, supp)))
   \<and> (\<forall>b. eligible rt cfg ps b =
          (0 < benchmarkPriceMicros b
           \<and> (\<exists>p. map_of ps (productId b) = Some p
                  \<and> calculateLabel cfg (relativePrice_of b) \<in> set (EXPORT_LABELS cfg)
                  \<and> availability p = ''in stock''
                  \<and> (\<not> STOCK_ENABLED cfg \<or> STOCK_THRESHOLD cfg \<le> stock_value rt (stockQuantity p)))))"
proof (intro conjI allI)
  show "mergeTables rt cfg (map benchmarkRow bs) (productData_of ps) (Some (statsData_of ss)) =
     Inr (output_header rt cfg
            # map (\<lambda>b. detail_row cfg (the (map_of ps (productId b))) (map_of ss (offerId b)) b)
                (filter (eligible rt cfg ps) bs),
          supplemental_header rt cfg
            # map (supplemental_row cfg) (filter (eligible rt cfg ps) bs))"
    by (simp add: mergeTables_def forEach_row_typed)
next
  fix b outp supp
  show "mergeRow rt cfg (productData_of ps) (Some (statsData_of ss)) (benchmarkRow b) (outp, supp) =
          Inr (if eligible rt cfg ps b
               then (outp @ [detail_row cfg (the (map_of ps (productId b))) (map_of ss (offerId b)) b],
                     supp @ [supplemental_row cfg b])
               else (outp, supp))"
    by (rule mergeRow_typed)
next
  fix b
  show "eligible rt cfg ps b =
          (0 < benchmarkPriceMicros b
           \<and> (\<exists>p. map_of ps (productId b) = Some p
                  \<and> calculateLabel cfg (relativePrice_of b) \<in> set (EXPORT_LABELS cfg)
                  \<and> availability p = ''in stock''
                  \<and> (\<not> STOCK_ENABLED cfg \<or> STOCK_THRESHOLD cfg \<le> stock_value rt (stockQuantity p))))"
    by (auto simp: eligible_def label_of_def stock_policy_def split: option.splits)
qed

lemma label_spec: "label_of stock_config spec_benchmark = ''Above''"
  by (simp add: label_of_def relativePrice_of_def calculateLabel_def stock_config_def spec_config_def
      spec_benchmark_def fl_values)

lemma eligible_stock_example:
  "eligible digits_runtime stock_config spec_products spec_benchmark"
  "\<not> eligible digits_runtime stock_config spec_products unpriced_benchmark"
  by (simp_all add: eligible_def label_spec spec_products_def stock_policy_def stock_value_def
      unpriced_benchmark_def)
     (simp_all add: stock_config_def spec_config_def spec_benchmark_def)

text \<open>
  Two records under stock tracking with threshold 3: the first is eligible and gives one
  row in each table (with the stock column), the second has no benchmark price and
  gives none.
\<close>

theorem mergeData_emits_eligible_witness:
  "mergeTables digits_runtime stock_config (map benchmarkRow [spec_benchmark, unpriced_benchmark])
     (productData_of spec_products) (Some (statsData_of spec_stats)) =
     Inr ([output_header digits_runtime stock_config, spec_detail_row (225179981368525 / 2251799813685248) @ [VNum (Fin 5)]],
          [supplemental_header digits_runtime stock_config, [VStr ''O1'', VStr ''Above'']])"
proof -
  have d: "detail_row stock_config (the (map_of spec_products (productId spec_benchmark)))
             (map_of spec_stats (offerId spec_benchmark)) spec_benchmark
           = spec_detail_row (225179981368525 / 2251799813685248) @ [VNum (Fin 5)]"
    by (simp add: detail_row_def label_spec spec_detail_row_def relativePrice_of_def spec_products_def
        spec_stats_def)
       (simp add: spec_benchmark_def stock_config_def spec_config_def fl_values)
  have s: "supplemental_row stock_config spec_benchmark = [VStr ''O1'', VStr ''Above'']"
    by (simp add: supplemental_row_def label_spec) (simp add: spec_benchmark_def)
  show ?thesis
    using mergeData_emits_eligible [of digits_runtime stock_config "[spec_benchmark, unpriced_benchmark]"
        spec_products spec_stats]
    by (simp add: eligible_stock_example d s)
qed

text \<open>
  C1 as the specification words it also asks for a non-empty label. With the empty string in the
  allow-list, a record that no rule labels is emitted, with an empty label cell.
\<close>

theorem mergeData_empty_label_counterexample:
  "mergeTables digits_runtime gap_config [benchmarkRow gap_benchmark]
     (productData_of spec_products) (Some (statsData_of spec_stats)) =
     Inr ([output_header digits_runtime gap_config,
           [VStr ''O1'', VStr ''T'', VStr ''B'', VNum (Fin 2), VStr ''USD'', VStr ''US'', VNum (Fin 1),
            VNum (Fin 1), VStr [], VNum (Fin 10), VNum (Fin 2)]],
          [supplemental_header digits_runtime gap_config, [VStr ''O1'', VStr []]])
   \<and> calculateLabel gap_config (relativePrice_of gap_benchmark) = []"
proof -
  have l: "calculateLabel gap_config (relativePrice_of gap_benchmark) = []"
    by (simp add: relativePrice_of_def calculateLabel_def gap_config_def spec_config_def
      gap_benchmark_def spec_benchmark_def fl_values)
  have e: "eligible digits_runtime gap_config spec_products gap_benchmark"
    by (simp add: eligible_def label_of_def l spec_products_def stock_policy_def)
       (simp add: gap_config_def spec_config_def gap_benchmark_def spec_benchmark_def)
  have d: "detail_row gap_config (the (map_of spec_products (productId gap_benchmark)))
             (map_of spec_stats (offerId gap_benchmark)) gap_benchmark
           = [VStr ''O1'', VStr ''T'', VStr ''B'', VNum (Fin 2), VStr ''USD'', VStr ''US'', VNum (Fin 1),
              VNum (Fin 1), VStr [], VNum (Fin 10), VNum (Fin 2)]"
    by (simp add: detail_row_def label_of_def l)
       (simp add: relativePrice_of_def spec_products_def spec_stats_def gap_benchmark_def
          spec_benchmark_def gap_config_def spec_config_def fl_values)
  have s: "supplemental_row gap_config gap_benchmark = [VStr ''O1'', VStr []]"
    by (simp add: supplemental_row_def label_of_def l) (simp add: gap_benchmark_def spec_benchmark_def)
  have "mergeTables digits_runtime gap_config (map benchmarkRow [gap_benchmark])
     (productData_of spec_products) (Some (statsData_of spec_stats)) =
     Inr ([output_header digits_runtime gap_config,
           [VStr ''O1'', VStr ''T'', VStr ''B'', VNum (Fin 2), VStr ''USD'', VStr ''US'', VNum (Fin 1),
            VNum (Fin 1), VStr [], VNum (Fin 10), VNum (Fin 2)]],
          [supplemental_header digits_runtime gap_config, [VStr ''O1'', VStr []]])"
    using forEach_row_typed [of digits_runtime gap_config spec_products spec_stats "[gap_benchmark]"
        "[output_header digits_runtime gap_config]" "[supplemental_header digits_runtime gap_config]"]
    by (simp add: mergeTables_def e d s del: forEach_row.simps)
  with l show ?thesis by simp
qed


section \<open>The end-to-end example\<close>

text \<open>
  C4, as the code has it. On the example of the specification the reconciler computes
  the relative price \<open>1.1 - 1\<close> in double arithmetic, which is
  \<open>225179981368525 / 2 ^ 51 = 0.10000000000000009\<close>, labels it Above, and emits one
  detail row \<open>['O1', 'T', 'B', 1.1, 'USD', 'US', 1, 0.10000000000000009, 'Above', 10, 2]\<close>
  (where \<open>1.1\<close> is the double nearest to it) and one supplemental row
  \<open>['O1', 'Above']\<close>, whatever the runtime conversions are. The relative price exceeds
  one tenth by less than \<open>1 / 10 ^ 16\<close>.
\<close>

theorem mergeData_spec_example:
  "mergeTables rt spec_config [benchmarkRow spec_benchmark] (productData_of spec_products)
     (Some (statsData_of spec_stats)) =
     Inr ([output_header rt spec_config, spec_detail_row (fl (fl (11 / 10) - 1))],
          [supplemental_header rt spec_config, [VStr ''O1'', VStr ''Above'']])
   \<and> mergeData rt spec_config [benchmarkRow spec_benchmark] (productData_of spec_products)
       (Some (statsData_of spec_stats)) =
     Inr [PushToSheets ''benchmark data''
            [output_header rt spec_config, spec_detail_row (fl (fl (11 / 10) - 1))],
          PushToSheets ''output - supplemental feed''
            [supplemental_header rt spec_config, [VStr ''O1'', VStr ''Above'']]]
   \<and> relativePrice_of spec_benchmark = Fin (fl (fl (11 / 10) - 1))
   \<and> calculateLabel spec_config (relativePrice_of spec_benchmark) = ''Above''
   \<and> fl (fl (11 / 10) - 1) = 225179981368525 / 2 ^ 51
   \<and> fl (11 / 10) = 2476979795053773 / 2 ^ 51
   \<and> 1 / 10 < fl (fl (11 / 10) - 1) \<and> fl (fl (11 / 10) - 1) < 1 / 10 + 1 / 10 ^ 16"
proof -
  have t: "mergeTables rt spec_config [benchmarkRow spec_benchmark] (productData_of spec_products)
     (Some (statsData_of spec_stats)) =
     Inr ([output_header rt spec_config, spec_detail_row (fl (fl (11 / 10) - 1))],
          [supplemental_header rt spec_config, [VStr ''O1'', VStr ''Above'']])"
    by (simp add: mergeTables_def mergeRow_def flatten_def Object_assign_def assign_props_def
      benchmarkRow_def spec_benchmark_def spec_config_def productObject_def statObject_def
      productData_of_def statsData_of_def spec_products_def spec_stats_def spec_detail_row_def
      nullish_def getOwn_def getMember_def calculateLabel_def checkStock_def Let_def fl_values)
  have r: "relativePrice_of spec_benchmark = Fin (fl (fl (11 / 10) - 1))"
    by (simp add: relativePrice_of_def spec_benchmark_def fl_values)
  have l: "calculateLabel spec_config (relativePrice_of spec_benchmark) = ''Above''"
    by (simp add: r) (simp add: calculateLabel_def spec_config_def fl_values)
  have v: "fl (fl (11 / 10) - 1) = 225179981368525 / 2 ^ 51" "fl (11 / 10) = 2476979795053773 / 2 ^ 51"
    "1 / 10 < fl (fl (11 / 10) - 1)" "fl (fl (11 / 10) - 1) < 1 / 10 + 1 / 10 ^ 16"
    by (simp_all add: fl_values)
  have d: "mergeData rt spec_config [benchmarkRow spec_benchmark] (productData_of spec_products)
       (Some (statsData_of spec_stats)) =
     Inr [PushToSheets ''benchmark data''
            [output_header rt spec_config, spec_detail_row (fl (fl (11 / 10) - 1))],
          PushToSheets ''output - supplemental feed''
            [supplemental_header rt spec_config, [VStr ''O1'', VStr ''Above'']]]"
    by (simp add: mergeData_def t) (simp add: spec_config_def)
  from t d r l v show ?thesis by (simp only: simp_thms)
qed

text \<open>
  The relative price cell is neither the double that the literal \<open>0.1\<close> denotes nor the
  real number one tenth, so the detail row differs from the row the specification gives.
\<close>

theorem mergeData_spec_example_counterexample:
  "mergeTables digits_runtime spec_config [benchmarkRow spec_benchmark] (productData_of spec_products)
     (Some (statsData_of spec_stats)) \<noteq>
     Inr ([output_header digits_runtime spec_config, spec_detail_row (fl (1 / 10))],
          [supplemental_header digits_runtime spec_config, [VStr ''O1'', VStr ''Above'']])
   \<and> mergeTables digits_runtime spec_config [benchmarkRow spec_benchmark] (productData_of spec_products)
     (Some (statsData_of spec_stats)) \<noteq>
     Inr ([output_header digits_runtime spec_config, spec_detail_row (1 / 10)],
          [supplemental_header digits_runtime spec_config, [VStr ''O1'', VStr ''Above'']])
   \<and> relativePrice_of spec_benchmark \<noteq> Fin (fl (1 / 10))
   \<and> relativePrice_of spec_benchmark \<noteq> Fin (1 / 10)"
proof -
  have t: "mergeTables digits_runtime spec_config [benchmarkRow spec_benchmark] (productData_of spec_products)
     (Some (statsData_of spec_stats)) =
     Inr ([output_header digits_runtime spec_config, spec_detail_row (225179981368525 / 2251799813685248)],
          [supplemental_header digits_runtime spec_config, [VStr ''O1'', VStr ''Above'']])"
    by (simp add: mergeTables_def mergeRow_def flatten_def Object_assign_def assign_props_def
      benchmarkRow_def spec_benchmark_def spec_config_def productObject_def statObject_def
      productData_of_def statsData_of_def spec_products_def spec_stats_def spec_detail_row_def
      nullish_def getOwn_def getMember_def calculateLabel_def checkStock_def Let_def fl_values)
  have r: "relativePrice_of spec_benchmark = Fin (225179981368525 / 2251799813685248)"
    by (simp add: relativePrice_of_def spec_benchmark_def fl_values)
  show ?thesis
    by (simp add: t r) (simp add: spec_detail_row_def fl_values)
qed



section \<open>Properties of the report loop\<close>

lemma loop_done:
  "cursor st = None \<Longrightarrow> downloadReport_loop q rs st = finish st"
  by (cases rs) simp_all

lemma loop_page:
  "cursor st = Some tok \<Longrightarrow> results r = Some pg \<Longrightarrow>
   downloadReport_loop q (r # rs) st =
     downloadReport_loop q rs
       (st\<lparr>requests := requests st @ [\<lparr>query = q, pageSize = PAGE_SIZE, pageToken = tok\<rparr>],
           cursor := nextPageToken r, fullResults := fullResults st @ pg\<rparr>)"
  by (simp add: Let_def)

lemma loop_retry:
  "cursor st = Some tok \<Longrightarrow> results r = None \<Longrightarrow> error r = Some (500, m) \<Longrightarrow>
   nTries st < maxTries \<Longrightarrow>
   downloadReport_loop q (r # rs) st =
     downloadReport_loop q rs
       (st\<lparr>requests := requests st @ [\<lparr>query = q, pageSize = PAGE_SIZE, pageToken = tok\<rparr>],
           logs := logs st @ [LogError 500 m, LogRetry (nTries st + 1)],
           nTries := nTries st + 1\<rparr>)"
  by (simp add: Let_def)

lemma loop_exhausted:
  "cursor st = Some tok \<Longrightarrow> results r = None \<Longrightarrow> error r = Some (500, m) \<Longrightarrow>
   \<not> nTries st < maxTries \<Longrightarrow>
   downloadReport_loop q (r # rs) st =
     (Thrown (Error ''Internal error getting report. Please try it again later''),
      st\<lparr>requests := requests st @ [\<lparr>query = q, pageSize = PAGE_SIZE, pageToken = tok\<rparr>],
         logs := logs st @ [LogError 500 m]\<rparr>)"
  by (simp add: Let_def)

lemma loop_other_error:
  "cursor st = Some tok \<Longrightarrow> results r = None \<Longrightarrow> error r = Some (c, m) \<Longrightarrow> c \<noteq> 500 \<Longrightarrow>
   downloadReport_loop q (r # rs) st =
     finish (st\<lparr>requests := requests st @ [\<lparr>query = q, pageSize = PAGE_SIZE, pageToken = tok\<rparr>],
               logs := logs st @ [LogError c m]\<rparr>)"
  by (simp add: Let_def)

declare downloadReport_loop.simps [simp del]

lemma retryable_errorE:
  assumes "retryable_error r"
  obtains m where "results r = None" "error r = Some (500, m)"
  using assms by (auto simp: retryable_error_def split: option.splits)

lemma continuing_pageE:
  assumes "continuing_page r"
  obtains pg tok where "results r = Some pg" "nextPageToken r = Some tok"
  using assms by (auto simp: continuing_page_def)

lemma kinds_exclusive: "continuing_page r \<Longrightarrow> \<not> retryable_error r"
  by (auto simp: continuing_page_def retryable_error_def)

lemma retries_logged_simps:
  "retries_logged (st\<lparr>logs := logs st @ [LogError c m, LogRetry n], nTries := k\<rparr>) = retries_logged st @ [LogRetry n]"
  "retries_logged (st\<lparr>requests := rq\<rparr>) = retries_logged st"
  "retries_logged (st\<lparr>cursor := cu\<rparr>) = retries_logged st"
  "retries_logged (st\<lparr>fullResults := fr\<rparr>) = retries_logged st"
  "retries_logged (st\<lparr>logs := logs st @ [LogFinal n]\<rparr>) = retries_logged st"
  by (simp_all add: retries_logged_def)

text \<open>A run through continuing pages and retryable errors within the budget.\<close>

lemma upt_shift: "map f [0..<Suc k] = f 0 # map (\<lambda>i. f (Suc i)) [0..<k]"
proof -
  have "[0..<Suc k] = 0 # map Suc [0..<k]"
    by (simp add: upt_conv_Cons map_Suc_upt del: upt_Suc)
  then show ?thesis by (simp add: comp_def del: upt_Suc)
qed

lemma run_within_budget:
  assumes "\<forall>r \<in> set rs. continuing_page r \<or> retryable_error r"
    and "cursor st \<noteq> None"
    and "nTries st + length (filter retryable_error rs) \<le> maxTries"
  shows "\<exists>st'. downloadReport_loop q (rs @ rest) st = downloadReport_loop q rest st'
      \<and> cursor st' \<noteq> None
      \<and> nTries st' = nTries st + length (filter retryable_error rs)
      \<and> fullResults st' = fullResults st @ concat (map page_results rs)
      \<and> retries_logged st' =
          retries_logged st
          @ map (\<lambda>i. LogRetry (nTries st + Suc i)) [0..<length (filter retryable_error rs)]"
  using assms
proof (induction rs arbitrary: st)
  case Nil
  then show ?case by auto
next
  case (Cons r rs)
  from Cons.prems(2) obtain tok where tok: "cursor st = Some tok" by auto
  show ?case
  proof (cases "retryable_error r")
    case True
    then obtain m where r: "results r = None" "error r = Some (500, m)"
      by (rule retryable_errorE)
    from True Cons.prems(3) have lt: "nTries st < maxTries" by simp
    define st1 where "st1 = st\<lparr>requests := requests st @ [\<lparr>query = q, pageSize = PAGE_SIZE, pageToken = tok\<rparr>],
           logs := logs st @ [LogError 500 m, LogRetry (nTries st + 1)],
           nTries := nTries st + 1\<rparr>"
    have step: "downloadReport_loop q ((r # rs) @ rest) st = downloadReport_loop q (rs @ rest) st1"
      unfolding st1_def append_Cons by (rule loop_retry [OF tok r lt])
    have st1: "cursor st1 = Some tok" "nTries st1 = nTries st + 1" "fullResults st1 = fullResults st"
      "retries_logged st1 = retries_logged st @ [LogRetry (nTries st + 1)]"
      by (simp_all add: st1_def tok retries_logged_def)
    have k: "length (filter retryable_error (r # rs)) = Suc (length (filter retryable_error rs))"
      using True by simp
    have "\<exists>st'. downloadReport_loop q (rs @ rest) st1 = downloadReport_loop q rest st'
      \<and> cursor st' \<noteq> None
      \<and> nTries st' = nTries st1 + length (filter retryable_error rs)
      \<and> fullResults st' = fullResults st1 @ concat (map page_results rs)
      \<and> retries_logged st' =
          retries_logged st1
          @ map (\<lambda>i. LogRetry (nTries st1 + Suc i)) [0..<length (filter retryable_error rs)]"
    proof (rule Cons.IH)
      show "\<forall>r \<in> set rs. continuing_page r \<or> retryable_error r" using Cons.prems(1) by simp
      show "cursor st1 \<noteq> None" by (simp add: st1)
      show "nTries st1 + length (filter retryable_error rs) \<le> maxTries"
        using Cons.prems(3) k by (simp add: st1)
    qed
    then obtain st' where st': "downloadReport_loop q (rs @ rest) st1 = downloadReport_loop q rest st'"
      "cursor st' \<noteq> None"
      "nTries st' = nTries st1 + length (filter retryable_error rs)"
      "fullResults st' = fullResults st1 @ concat (map page_results rs)"
      "retries_logged st' =
          retries_logged st1
          @ map (\<lambda>i. LogRetry (nTries st1 + Suc i)) [0..<length (filter retryable_error rs)]"
      by blast
    have pr: "page_results r = []" using r by (simp add: page_results_def)
    have a: "downloadReport_loop q ((r # rs) @ rest) st = downloadReport_loop q rest st'"
      using step st'(1) by simp
    have b: "nTries st' = nTries st + length (filter retryable_error (r # rs))"
      using st'(3) st1(2) k by simp
    have c: "fullResults st' = fullResults st @ concat (map page_results (r # rs))"
      using st'(4) st1(3) pr by simp
    have d: "retries_logged st' =
          retries_logged st
          @ map (\<lambda>i. LogRetry (nTries st + Suc i)) [0..<length (filter retryable_error (r # rs))]"
      unfolding k upt_shift using st'(5) st1(2,4) by simp
    from a st'(2) b c d show ?thesis by blast
  next
    case False
    with Cons.prems(1) have "continuing_page r" by simp
    then obtain pg nxt where r: "results r = Some pg" "nextPageToken r = Some nxt"
      by (rule continuing_pageE)
    define st1 where "st1 = st\<lparr>requests := requests st @ [\<lparr>query = q, pageSize = PAGE_SIZE, pageToken = tok\<rparr>],
           cursor := nextPageToken r, fullResults := fullResults st @ pg\<rparr>"
    have step: "downloadReport_loop q ((r # rs) @ rest) st = downloadReport_loop q (rs @ rest) st1"
      unfolding st1_def append_Cons by (rule loop_page [OF tok r(1)])
    have st1: "cursor st1 = Some nxt" "nTries st1 = nTries st" "fullResults st1 = fullResults st @ pg"
      "retries_logged st1 = retries_logged st"
      by (simp_all add: st1_def r retries_logged_def)
    have k: "length (filter retryable_error (r # rs)) = length (filter retryable_error rs)"
      using False by simp
    have "\<exists>st'. downloadReport_loop q (rs @ rest) st1 = downloadReport_loop q rest st'
      \<and> cursor st' \<noteq> None
      \<and> nTries st' = nTries st1 + length (filter retryable_error rs)
      \<and> fullResults st' = fullResults st1 @ concat (map page_results rs)
      \<and> retries_logged st' =
          retries_logged st1
          @ map (\<lambda>i. LogRetry (nTries st1 + Suc i)) [0..<length (filter retryable_error rs)]"
    proof (rule Cons.IH)
      show "\<forall>r \<in> set rs. continuing_page r \<or> retryable_error r" using Cons.prems(1) by simp
      show "cursor st1 \<noteq> None" by (simp add: st1)
      show "nTries st1 + length (filter retryable_error rs) \<le> maxTries"
        using Cons.prems(3) k by (simp add: st1)
    qed
    then obtain st' where st': "downloadReport_loop q (rs @ rest) st1 = downloadReport_loop q rest st'"
      "cursor st' \<noteq> None"
      "nTries st' = nTries st1 + length (filter retryable_error rs)"
      "fullResults st' = fullResults st1 @ concat (map page_results rs)"
      "retries_logged st' =
          retries_logged st1
          @ map (\<lambda>i. LogRetry (nTries st1 + Suc i)) [0..<length (filter retryable_error rs)]"
      by blast
    have pr: "page_results r = pg" using r by (simp add: page_results_def)
    have a: "downloadReport_loop q ((r # rs) @ rest) st = downloadReport_loop q rest st'"
      using step st'(1) by simp
    have b: "nTries st' = nTries st + length (filter retryable_error (r # rs))"
      using st'(3) st1(2) k by simp
    have c: "fullResults st' = fullResults st @ concat (map page_results (r # rs))"
      using st'(4) st1(3) pr by simp
    have d: "retries_logged st' =
          retries_logged st
          @ map (\<lambda>i. LogRetry (nTries st + Suc i)) [0..<length (filter retryable_error (r # rs))]"
      unfolding k using st'(5) st1(2,4) by simp
    from a st'(2) b c d show ?thesis by blast
  qed
qed

lemma initial_fields:
  "cursor initial_state = Some []" "nTries initial_state = 0" "fullResults initial_state = []"
  "retries_logged initial_state = []" "requests initial_state = []" "logs initial_state = []"
  by (simp_all add: initial_state_def retries_logged_def)

lemma nTries_bounded:
  "nTries st \<le> maxTries \<Longrightarrow> nTries (snd (downloadReport_loop q rs st)) \<le> maxTries"
  by (induction q rs st rule: downloadReport_loop.induct)
     (auto simp: downloadReport_loop.simps finish_def Let_def split: option.splits)

lemma thrown_only_when_exhausted:
  "fst (downloadReport_loop q rs st) = Thrown e \<Longrightarrow>
   e = Error ''Internal error getting report. Please try it again later''
   \<and> maxTries \<le> nTries (snd (downloadReport_loop q rs st))
   \<and> (\<exists>m. last (logs (snd (downloadReport_loop q rs st))) = LogError 500 m)"
  by (induction q rs st rule: downloadReport_loop.induct)
     (auto simp: downloadReport_loop.simps finish_def Let_def split: option.splits if_splits)

lemma run_exhausts:
  assumes "\<forall>r \<in> set rs. continuing_page r \<or> retryable_error r"
    and "cursor st \<noteq> None"
    and "nTries st \<le> maxTries"
    and "maxTries < nTries st + length (filter retryable_error rs)"
  shows "fst (downloadReport_loop q (rs @ rest) st) =
           Thrown (Error ''Internal error getting report. Please try it again later'')"
  using assms
proof (induction rs arbitrary: st)
  case Nil
  then show ?case by simp
next
  case (Cons r rs)
  from Cons.prems(2) obtain tok where tok: "cursor st = Some tok" by auto
  show ?case
  proof (cases "retryable_error r")
    case True
    then obtain m where r: "results r = None" "error r = Some (500, m)"
      by (rule retryable_errorE)
    show ?thesis
    proof (cases "nTries st < maxTries")
      case False
      then show ?thesis
        unfolding append_Cons by (simp only: loop_exhausted [OF tok r False] fst_conv)
    next
      case lt: True
      have "fst (downloadReport_loop q (rs @ rest)
              (st\<lparr>requests := requests st @ [\<lparr>query = q, pageSize = PAGE_SIZE, pageToken = tok\<rparr>],
                  logs := logs st @ [LogError 500 m, LogRetry (nTries st + 1)],
                  nTries := nTries st + 1\<rparr>)) =
            Thrown (Error ''Internal error getting report. Please try it again later'')"
        using Cons.prems True tok lt by (intro Cons.IH) auto
      then show ?thesis
        unfolding append_Cons by (simp only: loop_retry [OF tok r lt])
    qed
  next
    case False
    with Cons.prems(1) have "continuing_page r" by simp
    then obtain pg nxt where r: "results r = Some pg" "nextPageToken r = Some nxt"
      by (rule continuing_pageE)
    have "fst (downloadReport_loop q (rs @ rest)
              (st\<lparr>requests := requests st @ [\<lparr>query = q, pageSize = PAGE_SIZE, pageToken = tok\<rparr>],
                  cursor := nextPageToken r, fullResults := fullResults st @ pg\<rparr>)) =
            Thrown (Error ''Internal error getting report. Please try it again later'')"
      using Cons.prems False r by (intro Cons.IH) auto
    then show ?thesis
      unfolding append_Cons by (simp only: loop_page [OF tok r(1)])
  qed
qed

lemma loop_Nil_pending: "cursor st \<noteq> None \<Longrightarrow> downloadReport_loop q [] st = (Pending, st)"
  by (auto simp: downloadReport_loop.simps)

lemma loop_last_page:
  assumes "cursor st \<noteq> None" "last_page f"
  shows "fst (downloadReport_loop q (f # rest) st) = Returned (fullResults st @ page_results f)"
    and "nTries (snd (downloadReport_loop q (f # rest) st)) = nTries st"
    and "retries_logged (snd (downloadReport_loop q (f # rest) st)) = retries_logged st"
proof -
  from assms obtain tok pg where f: "cursor st = Some tok" "results f = Some pg" "nextPageToken f = None"
    by (auto simp: last_page_def)
  have "downloadReport_loop q (f # rest) st =
      finish (st\<lparr>requests := requests st @ [\<lparr>query = q, pageSize = PAGE_SIZE, pageToken = tok\<rparr>],
           cursor := nextPageToken f, fullResults := fullResults st @ pg\<rparr>)"
    by (simp only: loop_page [OF f(1,2)]) (simp add: loop_done f)
  then show "fst (downloadReport_loop q (f # rest) st) = Returned (fullResults st @ page_results f)"
    and "nTries (snd (downloadReport_loop q (f # rest) st)) = nTries st"
    and "retries_logged (snd (downloadReport_loop q (f # rest) st)) = retries_logged st"
    by (simp_all add: finish_def page_results_def f retries_logged_def)
qed

lemma same_token_after_retry:
  assumes "cursor st = Some tok" "retryable_error e" "nTries st < maxTries"
  shows "map pageToken (requests (snd (downloadReport_loop q [e, r] st))) =
           map pageToken (requests st) @ [tok, tok]"
proof -
  from assms(2) obtain m where e: "results e = None" "error e = Some (500, m)"
    by (rule retryable_errorE)
  show ?thesis
    by (simp only: loop_retry [OF assms(1) e assms(3)])
       (auto simp: downloadReport_loop.simps assms(1) finish_def Let_def split: option.splits)
qed

lemma product_loop_other_error:
  "cursor st = Some tok \<Longrightarrow> resources r = None \<Longrightarrow> error r = Some (c, m) \<Longrightarrow> c \<noteq> 500 \<Longrightarrow>
   getProductList_loop n (r # rs) st =
     finish (st\<lparr>requests := requests st @ [\<lparr>query = [], pageSize = n, pageToken = tok\<rparr>],
               logs := logs st @ [LogError c m]\<rparr>)"
  by (simp add: Let_def)

lemma product_loop_server_error:
  "cursor st = Some tok \<Longrightarrow> resources r = None \<Longrightarrow> error r = Some (500, m) \<Longrightarrow>
   getProductList_loop n (r # rs) st =
     (Thrown (Error ''Internal error when getting report. Please try it again''),
      st\<lparr>requests := requests st @ [\<lparr>query = [], pageSize = n, pageToken = tok\<rparr>],
         logs := logs st @ [LogError 500 m, LogGot (length (fullResults st))]\<rparr>)"
  by (simp add: Let_def)

declare getProductList_loop.simps [simp del]

lemma thrown_logs:
  "fst (downloadReport_loop q rs st) = Thrown e \<Longrightarrow> list_all count_free (logs st) \<Longrightarrow>
   list_all count_free (logs (snd (downloadReport_loop q rs st)))"
proof (induction rs arbitrary: st)
  case Nil
  then show ?case
    by (simp add: downloadReport_loop.simps finish_def split: option.splits)
next
  case (Cons r rs)
  show ?case
  proof (cases "cursor st")
    case None
    with Cons.prems show ?thesis by (simp add: loop_done finish_def)
  next
    case (Some tok)
    note tok = this
    show ?thesis
    proof (cases "results r")
      case (Some pg)
      let ?st = "st\<lparr>requests := requests st @ [\<lparr>query = q, pageSize = PAGE_SIZE, pageToken = tok\<rparr>],
           cursor := nextPageToken r, fullResults := fullResults st @ pg\<rparr>"
      have eq: "downloadReport_loop q (r # rs) st = downloadReport_loop q rs ?st"
        by (rule loop_page [OF tok Some])
      have "list_all count_free (logs (snd (downloadReport_loop q rs ?st)))"
        using Cons.prems by (intro Cons.IH) (simp_all add: eq)
      then show ?thesis by (simp only: eq)
    next
      case None
      note res = this
      show ?thesis
      proof (cases "error r")
        case None
        with Cons.prems(1) res tok show ?thesis
          by (simp add: downloadReport_loop.simps finish_def Let_def)
      next
        case (Some cm)
        obtain c m where cm: "error r = Some (c, m)" using Some by (cases cm) auto
        show ?thesis
        proof (cases "c = 500")
          case False
          with Cons.prems(1) show ?thesis
            by (simp add: loop_other_error [OF tok res cm False] finish_def)
        next
          case True
          note cm500 = cm [unfolded True]
          show ?thesis
          proof (cases "nTries st < maxTries")
            case False
            show ?thesis
              using Cons.prems(2)
              by (simp add: loop_exhausted [OF tok res cm500 False] count_free_def)
          next
            case lt: True
            let ?st = "st\<lparr>requests := requests st @ [\<lparr>query = q, pageSize = PAGE_SIZE, pageToken = tok\<rparr>],
               logs := logs st @ [LogError 500 m, LogRetry (nTries st + 1)],
               nTries := nTries st + 1\<rparr>"
            have eq: "downloadReport_loop q (r # rs) st = downloadReport_loop q rs ?st"
              by (rule loop_retry [OF tok res cm500 lt])
            have "list_all count_free (logs (snd (downloadReport_loop q rs ?st)))"
              using Cons.prems by (intro Cons.IH) (simp_all add: eq count_free_def)
            then show ?thesis by (simp only: eq)
          qed
        qed
      qed
    qed
  qed
qed

lemma retryable_results: "retryable_error r \<Longrightarrow> page_results r = []"
  by (simp add: page_results_def retryable_error_def)

lemma exhausted_results:
  assumes "\<forall>r \<in> set rs. continuing_page r \<or> retryable_error r"
    and "length (filter retryable_error rs) = 3"
    and "retryable_error e"
  shows "fullResults (snd (downloadReport q (rs @ e # rest))) = concat (map page_results rs)"
proof -
  have c0: "cursor initial_state \<noteq> None" by (simp add: initial_fields)
  have budget: "nTries initial_state + length (filter retryable_error rs) \<le> maxTries"
    by (simp add: assms(2) initial_fields maxTries_def)
  from run_within_budget [OF assms(1) c0 budget, of q "e # rest"]
  obtain st' where st': "downloadReport_loop q (rs @ e # rest) initial_state =
        downloadReport_loop q (e # rest) st'"
      "cursor st' \<noteq> None" "nTries st' = 3"
      "fullResults st' = concat (map page_results rs)"
    by (auto simp: initial_fields assms(2))
  from st'(2) obtain tok where tok: "cursor st' = Some tok" by auto
  from assms(3) obtain m where e: "results e = None" "error e = Some (500, m)"
    by (rule retryable_errorE)
  have full: "\<not> nTries st' < maxTries" by (simp add: st'(3) maxTries_def)
  show ?thesis
    by (simp add: downloadReport_def st'(1) loop_exhausted [OF tok e full] st'(4))
qed

text \<open>
  C3. A response with error code 500 is retried on the same page token: the request
  after it carries the token of the request before it. At most 3 retries are made. After
  pages that continue, a 4th consecutive retryable error makes \<open>downloadReport\<close> throw
  an \<open>Error\<close> whose message is the fixed text of the source. The results accumulated at
  that point are the rows of the pages read, but their number is neither in the value
  thrown nor in any line logged: the log holds only error and retry lines
  (\<open>count_free\<close>).
  \<open>getProductList\<close>, on its first code 500, logs the number of resources it has
  before it throws. Three retryable errors followed by pages up to a last page return
  the results of all the pages in order, with 3 retries counted and 3 retry lines logged.
\<close>

theorem downloadReport_retries:
  assumes "\<forall>r \<in> set ps. continuing_page r"
    and "retryable_error e1" and "retryable_error e2" and "retryable_error e3"
    and "retryable_error e4"
    and "\<forall>r \<in> set qs. continuing_page r"
    and "last_page f"
  shows
    "(\<forall>st tok r. cursor st = Some tok \<and> nTries st < maxTries \<longrightarrow>
        map pageToken (requests (snd (downloadReport_loop q [e1, r] st))) =
          map pageToken (requests st) @ [tok, tok])
     \<and> nTries (snd (downloadReport q rs)) \<le> 3
     \<and> fst (downloadReport q (ps @ [e1, e2, e3, e4] @ rest)) =
         Thrown (Error ''Internal error getting report. Please try it again later'')
     \<and> fullResults (snd (downloadReport q (ps @ [e1, e2, e3, e4] @ rest))) =
         concat (map page_results ps)
     \<and> list_all count_free (logs (snd (downloadReport q (ps @ [e1, e2, e3, e4] @ rest))))
     \<and> (\<forall>st tok r m. cursor st = Some tok \<and> resources r = None \<and> error r = Some (500, m) \<longrightarrow>
          fst (getProductList_loop n (r # rest) st) =
            Thrown (Error ''Internal error when getting report. Please try it again'')
          \<and> logs (snd (getProductList_loop n (r # rest) st)) =
              logs st @ [LogError 500 m, LogGot (length (fullResults st))])
     \<and> fst (downloadReport q (ps @ [e1, e2, e3] @ qs @ f # rest)) =
         Returned (concat (map page_results (ps @ qs @ [f])))
     \<and> nTries (snd (downloadReport q (ps @ [e1, e2, e3] @ qs @ f # rest))) = 3
     \<and> retries_logged (snd (downloadReport q (ps @ [e1, e2, e3] @ qs @ f # rest))) =
         [LogRetry 1, LogRetry 2, LogRetry 3]"
proof -
  have same: "\<forall>st tok r. cursor st = Some tok \<and> nTries st < maxTries \<longrightarrow>
        map pageToken (requests (snd (downloadReport_loop q [e1, r] st))) =
          map pageToken (requests st) @ [tok, tok]"
    using same_token_after_retry [OF _ assms(2)] by blast
  have bound: "nTries (snd (downloadReport q rs)) \<le> 3"
    using nTries_bounded [of initial_state q rs]
    by (simp add: downloadReport_def initial_fields maxTries_def)
  have mixed4: "\<forall>r \<in> set (ps @ [e1, e2, e3, e4]). continuing_page r \<or> retryable_error r"
    using assms by auto
  have cnt_ps: "filter retryable_error ps = []"
    using assms(1) by (auto simp: filter_empty_conv dest: kinds_exclusive)
  have cnt_qs: "filter retryable_error qs = []"
    using assms(6) by (auto simp: filter_empty_conv dest: kinds_exclusive)
  have thrown: "fst (downloadReport q (ps @ [e1, e2, e3, e4] @ rest)) =
         Thrown (Error ''Internal error getting report. Please try it again later'')"
    using run_exhausts [OF mixed4, of initial_state q rest] assms(2-5)
    by (simp add: downloadReport_def initial_fields maxTries_def cnt_ps)
  have mixed3': "\<forall>r \<in> set (ps @ [e1, e2, e3]). continuing_page r \<or> retryable_error r"
    using assms by auto
  have cnt3': "length (filter retryable_error (ps @ [e1, e2, e3])) = 3"
    using assms(2-4) by (simp add: cnt_ps)
  have held: "fullResults (snd (downloadReport q (ps @ [e1, e2, e3, e4] @ rest))) =
         concat (map page_results ps)"
    using exhausted_results [OF mixed3' cnt3' assms(5), of q rest]
    by (simp add: retryable_results assms(2-4))
  have nocount: "list_all count_free (logs (snd (downloadReport q (ps @ [e1, e2, e3, e4] @ rest))))"
    unfolding downloadReport_def
    using thrown by (intro thrown_logs) (simp_all add: downloadReport_def initial_fields)
  have sibling: "\<forall>st tok r m. cursor st = Some tok \<and> resources r = None \<and> error r = Some (500, m) \<longrightarrow>
          fst (getProductList_loop n (r # rest) st) =
            Thrown (Error ''Internal error when getting report. Please try it again'')
          \<and> logs (snd (getProductList_loop n (r # rest) st)) =
              logs st @ [LogError 500 m, LogGot (length (fullResults st))]"
    by (auto simp: product_loop_server_error)
  have mixed3: "\<forall>r \<in> set (ps @ [e1, e2, e3] @ qs). continuing_page r \<or> retryable_error r"
    using assms by auto
  have cnt3: "length (filter retryable_error (ps @ [e1, e2, e3] @ qs)) = 3"
    using assms(2-4) by (simp add: cnt_ps cnt_qs)
  have pr: "concat (map page_results (ps @ [e1, e2, e3] @ qs)) = concat (map page_results (ps @ qs))"
    using assms(2-4) by (auto simp: page_results_def retryable_error_def)
  have budget: "nTries initial_state + length (filter retryable_error (ps @ [e1, e2, e3] @ qs)) \<le> maxTries"
    by (simp only: cnt3 initial_fields maxTries_def)
  have c0: "cursor initial_state \<noteq> None" by (simp add: initial_fields)
  have three: "map (\<lambda>i. LogRetry (0 + Suc i)) [0..<3] = [LogRetry 1, LogRetry 2, LogRetry 3]"
    by (simp add: eval_nat_numeral)
  from run_within_budget [OF mixed3 c0 budget, of q "f # rest"]
  obtain st' where st0: "downloadReport_loop q ((ps @ [e1, e2, e3] @ qs) @ f # rest) initial_state =
        downloadReport_loop q (f # rest) st'"
      "cursor st' \<noteq> None"
      "nTries st' = nTries initial_state + length (filter retryable_error (ps @ [e1, e2, e3] @ qs))"
      "fullResults st' = fullResults initial_state @ concat (map page_results (ps @ [e1, e2, e3] @ qs))"
      "retries_logged st' = retries_logged initial_state
          @ map (\<lambda>i. LogRetry (nTries initial_state + Suc i))
              [0..<length (filter retryable_error (ps @ [e1, e2, e3] @ qs))]"
    by blast
  have st': "downloadReport_loop q ((ps @ [e1, e2, e3] @ qs) @ f # rest) initial_state =
        downloadReport_loop q (f # rest) st'"
      "cursor st' \<noteq> None" "nTries st' = 3"
      "fullResults st' = concat (map page_results (ps @ qs))"
      "retries_logged st' = [LogRetry 1, LogRetry 2, LogRetry 3]"
    using st0 three by (simp_all only: cnt3 pr initial_fields append_Nil add_0 simp_thms)
  have run: "downloadReport q (ps @ [e1, e2, e3] @ qs @ f # rest) = downloadReport_loop q (f # rest) st'"
    using st'(1) by (simp add: downloadReport_def)
  have ret: "fst (downloadReport q (ps @ [e1, e2, e3] @ qs @ f # rest)) =
         Returned (concat (map page_results (ps @ qs @ [f])))"
    unfolding run using loop_last_page(1) [OF st'(2) assms(7), of q rest] by (simp add: st'(4))
  have n3: "nTries (snd (downloadReport q (ps @ [e1, e2, e3] @ qs @ f # rest))) = 3"
    unfolding run using loop_last_page(2) [OF st'(2) assms(7), of q rest] by (simp add: st'(3))
  have rl: "retries_logged (snd (downloadReport q (ps @ [e1, e2, e3] @ qs @ f # rest))) =
         [LogRetry 1, LogRetry 2, LogRetry 3]"
    unfolding run using loop_last_page(3) [OF st'(2) assms(7), of q rest] by (simp add: st'(5))
  from same bound thrown held nocount sibling ret n3 rl show ?thesis by blast
qed

text \<open>
  C9. \<open>nTries\<close> is never reset: on a run of pages that continue and retryable errors in
  any order, the 4th retryable error makes \<open>downloadReport\<close> throw, however many pages
  lie between the errors; with at most 3 such errors the counter is their total number.
\<close>

theorem downloadReport_counts_all_errors:
  assumes "\<forall>r \<in> set rs. continuing_page r \<or> retryable_error r"
  shows "(3 < length (filter retryable_error rs) \<longrightarrow>
            fst (downloadReport q (rs @ rest)) =
              Thrown (Error ''Internal error getting report. Please try it again later''))
       \<and> (length (filter retryable_error rs) \<le> 3 \<longrightarrow>
            fst (downloadReport q rs) = Pending
            \<and> nTries (snd (downloadReport q rs)) = length (filter retryable_error rs))"
proof (intro conjI impI)
  assume "3 < length (filter retryable_error rs)"
  then show "fst (downloadReport q (rs @ rest)) =
              Thrown (Error ''Internal error getting report. Please try it again later'')"
    using run_exhausts [OF assms, of initial_state q rest]
    by (simp add: downloadReport_def initial_fields maxTries_def)
next
  assume le: "length (filter retryable_error rs) \<le> 3"
  have c0: "cursor initial_state \<noteq> None" by (simp add: initial_fields)
  have budget: "nTries initial_state + length (filter retryable_error rs) \<le> maxTries"
    using le by (simp add: initial_fields maxTries_def)
  from run_within_budget [OF assms c0 budget, of q "[]"]
  obtain st' where st': "downloadReport_loop q rs initial_state = downloadReport_loop q [] st'"
      "cursor st' \<noteq> None" "nTries st' = length (filter retryable_error rs)"
    by (auto simp: initial_fields)
  from st' show "fst (downloadReport q rs) = Pending"
    by (simp add: downloadReport_def loop_Nil_pending)
  from st' show "nTries (snd (downloadReport q rs)) = length (filter retryable_error rs)"
    by (simp add: downloadReport_def loop_Nil_pending)
qed

lemma example_kinds:
  "retryable_error server_error" "continuing_page first_page" "last_page final_page"
  "page_results first_page = [VStr ''row1'', VStr ''row2'']"
  "page_results final_page = [VStr ''row3'']"
  by (simp_all add: server_error_def first_page_def final_page_def failure_def page_def
      retryable_error_def continuing_page_def last_page_def page_results_def)

lemma page_then_four_errors:
  "downloadReport ''q'' [first_page, server_error, server_error, server_error, server_error] =
     (Thrown (Error ''Internal error getting report. Please try it again later''),
      \<lparr>cursor = Some ''token1'', fullResults = [VStr ''row1'', VStr ''row2''], nTries = 3,
       requests = \<lparr>query = ''q'', pageSize = 1000, pageToken = []\<rparr>
                  # replicate 4 \<lparr>query = ''q'', pageSize = 1000, pageToken = ''token1''\<rparr>,
       logs = [LogError 500 ''Internal error encountered.'', LogRetry 1,
               LogError 500 ''Internal error encountered.'', LogRetry 2,
               LogError 500 ''Internal error encountered.'', LogRetry 3,
               LogError 500 ''Internal error encountered.'']\<rparr>)"
  by (simp add: downloadReport_def downloadReport_loop.simps initial_state_def server_error_def
      first_page_def page_def failure_def maxTries_def PAGE_SIZE_def Let_def eval_nat_numeral)

text \<open>
  One page of two rows, then four server errors: the error thrown and the lines logged
  hold no count, with two rows accumulated. And one page, three server errors, the last
  page.
\<close>

theorem downloadReport_retries_witness:
  "fst (downloadReport ''q'' ([first_page] @ [server_error, server_error, server_error, server_error] @ []))
     = Thrown (Error ''Internal error getting report. Please try it again later'')
   \<and> fullResults (snd (downloadReport ''q''
         ([first_page] @ [server_error, server_error, server_error, server_error] @ [])))
     = [VStr ''row1'', VStr ''row2'']
   \<and> logs (snd (downloadReport ''q''
         ([first_page] @ [server_error, server_error, server_error, server_error] @ [])))
     = [LogError 500 ''Internal error encountered.'', LogRetry 1,
        LogError 500 ''Internal error encountered.'', LogRetry 2,
        LogError 500 ''Internal error encountered.'', LogRetry 3,
        LogError 500 ''Internal error encountered.'']
   \<and> fst (downloadReport ''q'' ([first_page] @ [server_error, server_error, server_error] @ [] @ final_page # []))
     = Returned [VStr ''row1'', VStr ''row2'', VStr ''row3'']
   \<and> nTries (snd (downloadReport ''q'' ([first_page] @ [server_error, server_error, server_error] @ [] @ final_page # []))) = 3
   \<and> retries_logged (snd (downloadReport ''q'' ([first_page] @ [server_error, server_error, server_error] @ [] @ final_page # [])))
     = [LogRetry 1, LogRetry 2, LogRetry 3]"
proof -
  have h: "\<forall>r \<in> set [first_page]. continuing_page r" "\<forall>r \<in> set []. continuing_page r"
    by (simp_all add: example_kinds)
  have l: "logs (snd (downloadReport ''q''
         ([first_page] @ [server_error, server_error, server_error, server_error] @ [])))
     = [LogError 500 ''Internal error encountered.'', LogRetry 1,
        LogError 500 ''Internal error encountered.'', LogRetry 2,
        LogError 500 ''Internal error encountered.'', LogRetry 3,
        LogError 500 ''Internal error encountered.'']"
    by (simp add: page_then_four_errors)
  show ?thesis
    using downloadReport_retries [OF h(1) example_kinds(1) example_kinds(1) example_kinds(1)
        example_kinds(1) h(2) example_kinds(3), of "''q''" "[]" "[]"] l
    by (simp add: example_kinds)
qed

text \<open>Four server errors with pages between them; three of them with the run still open.\<close>

theorem downloadReport_counts_all_errors_witness:
  "fst (downloadReport ''q'' ([server_error, first_page, server_error, first_page, first_page,
          server_error, first_page, server_error] @ [final_page])) =
     Thrown (Error ''Internal error getting report. Please try it again later'')
   \<and> fst (downloadReport ''q'' [server_error, first_page, server_error, first_page, server_error]) = Pending
   \<and> nTries (snd (downloadReport ''q'' [server_error, first_page, server_error, first_page, server_error])) = 3"
proof -
  have a: "\<forall>r \<in> set [server_error, first_page, server_error, first_page, first_page,
          server_error, first_page, server_error]. continuing_page r \<or> retryable_error r"
    by (simp add: example_kinds)
  have b: "\<forall>r \<in> set [server_error, first_page, server_error, first_page, server_error].
      continuing_page r \<or> retryable_error r"
    by (simp add: example_kinds)
  have nf: "\<not> retryable_error first_page"
    using example_kinds(2) by (rule kinds_exclusive)
  show ?thesis
    using downloadReport_counts_all_errors [OF a, of "''q''" "[final_page]"]
      downloadReport_counts_all_errors [OF b, of "''q''" "[]"]
    by (simp add: example_kinds nf)
qed


text \<open>
  C6. An error response whose code is not 500 ends the loop at once, whatever responses
  would follow: both \<open>downloadReport\<close> and \<open>getProductList\<close> log the error and return
  what they have accumulated, and nothing is thrown. \<open>downloadReport\<close> throws only with
  the retry budget used up and a code 500 as the last error logged. \<open>getProductList\<close>
  has no retry: a code 500 makes it throw after the one request.
\<close>

theorem non_retryable_error_aborts:
  assumes "cursor st = Some tok" and "error r = Some (c, m)" and "c \<noteq> 500"
  shows
    "(results r = None \<longrightarrow>
        downloadReport_loop q (r # rest) st =
          finish (st\<lparr>requests := requests st @ [\<lparr>query = q, pageSize = PAGE_SIZE, pageToken = tok\<rparr>],
                    logs := logs st @ [LogError c m]\<rparr>)
        \<and> fst (downloadReport_loop q (r # rest) st) = Returned (fullResults st))
     \<and> (resources r = None \<longrightarrow>
        getProductList_loop n (r # rest) st =
          finish (st\<lparr>requests := requests st @ [\<lparr>query = [], pageSize = n, pageToken = tok\<rparr>],
                    logs := logs st @ [LogError c m]\<rparr>)
        \<and> fst (getProductList_loop n (r # rest) st) = Returned (fullResults st))
     \<and> (\<forall>rs st0 e. fst (downloadReport_loop q rs st0) = Thrown e \<longrightarrow>
          e = Error ''Internal error getting report. Please try it again later''
          \<and> maxTries \<le> nTries (snd (downloadReport_loop q rs st0))
          \<and> (\<exists>m'. last (logs (snd (downloadReport_loop q rs st0))) = LogError 500 m'))
     \<and> (\<forall>r' m'. resources r' = None \<and> error r' = Some (500, m') \<longrightarrow>
          fst (getProductList_loop n (r' # rest) st) =
            Thrown (Error ''Internal error when getting report. Please try it again'')
          \<and> requests (snd (getProductList_loop n (r' # rest) st)) =
              requests st @ [\<lparr>query = [], pageSize = n, pageToken = tok\<rparr>])"
  using loop_other_error [OF assms(1) _ assms(2,3)] product_loop_other_error [OF assms(1) _ assms(2,3)]
    product_loop_server_error [OF assms(1)] thrown_only_when_exhausted [of q]
  by (auto simp: finish_def)

text \<open>A 404 on the first request of either loop, and a 500 on the first request of the listing.\<close>

theorem non_retryable_error_aborts_witness:
  "fst (downloadReport_loop ''q'' (failure 404 ''Not found'' # [final_page]) initial_state) = Returned []
   \<and> fst (getProductList_loop 250 (failure 404 ''Not found'' # [final_page]) initial_state) = Returned []
   \<and> fst (getProductList_loop 250 (server_error # [final_page]) initial_state) =
       Thrown (Error ''Internal error when getting report. Please try it again'')"
proof -
  have h: "cursor initial_state = Some []" "error (failure 404 ''Not found'') = Some (404, ''Not found'')"
    "(404::int) \<noteq> 500"
    by (simp_all add: initial_state_def failure_def)
  have r: "results (failure 404 ''Not found'') = None" "resources (failure 404 ''Not found'') = None"
    "resources server_error = None" "error server_error = Some (500, ''Internal error encountered.'')"
    by (simp_all add: failure_def server_error_def)
  show ?thesis
    using non_retryable_error_aborts [OF h, of "''q''" "[final_page]" 250] r
    by (auto simp: initial_state_def finish_def)
qed

section \<open>The statistics object and the reconciler\<close>














section \<open>HTML in place of JSON\<close>

lemma JSON_parse_html:
  assumes "startsWith s ''<!DOCTYPE html>''"
  shows "JSON_parse parser s = Inl SyntaxError"
proof -
  from assms obtain cs where "s = CHR ''<'' # cs"
    by (cases s) (auto simp: startsWith_def)
  then show ?thesis
    by (simp add: JSON_parse_def json_space_def json_start_def)
qed

text \<open>
  C7, on each of the two paths. \<open>getResultFrom\<close> answers a response that starts with
  \<open><!DOCTYPE html>\<close> by the empty object. \<open>MerchantCenterAPI.call\<close>, and with it
  \<open>getReport\<close>, hands the same text to \<open>JSON.parse\<close>, which throws a \<open>SyntaxError\<close>.
\<close>

theorem html_marker_handling:
  "(startsWith (toString httpResponse) ''<!DOCTYPE html>'' \<longrightarrow>
      getResultFrom parser httpResponse = Inr (VObj []))
   \<and> ((\<forall>u m p. startsWith (getContentText (fetch u m p)) ''<!DOCTYPE html>'') \<longrightarrow>
        MerchantCenterAPI_call rt parser fetch service method payload = Inl SyntaxError
        \<and> getReport rt parser fetch mcId entries = Inl SyntaxError)"
  by (simp add: getResultFrom_def MerchantCenterAPI_call_def getReport_def JSON_parse_html)

text \<open>Both paths on the same HTML page.\<close>

theorem html_marker_handling_witness:
  "getResultFrom (\<lambda>s. Inr VNull) html_response = Inr (VObj [])
   \<and> MerchantCenterAPI_call digits_runtime (\<lambda>s. Inr VNull) (\<lambda>u m p. html_response)
        ''123/reports/search'' ''post'' (VObj [(''query'', VStr ''SELECT'')]) = Inl SyntaxError
   \<and> getReport digits_runtime (\<lambda>s. Inr VNull) (\<lambda>u m p. html_response) ''123''
        (VObj [(''query'', VStr ''SELECT'')]) = Inl SyntaxError"
proof -
  have a: "startsWith (toString html_response) ''<!DOCTYPE html>''"
    by (simp add: html_response_def startsWith_def)
  have b: "\<forall>u m p. startsWith (getContentText ((\<lambda>u m p. html_response) u (m::string) (p::val option))) ''<!DOCTYPE html>''"
    by (simp add: html_response_def startsWith_def)
  show ?thesis
    using html_marker_handling [of html_response "\<lambda>s. Inr VNull" "\<lambda>u m p. html_response"
        digits_runtime "''123/reports/search''" "''post''" "VObj [(''query'', VStr ''SELECT'')]" "''123''"
        "VObj [(''query'', VStr ''SELECT'')]"] a b
    by simp
qed


section \<open>The round trip of the flattener\<close>

subsection \<open>split and join\<close>

lemma split_at_no_sep: "c \<notin> set s \<Longrightarrow> split_at c s = [s]"
  by (induction s) auto

lemma split_at_sep: "c \<notin> set s \<Longrightarrow> split_at c (s @ c # t) = s # split_at c t"
  by (induction s) auto

lemma split_join:
  "p \<noteq> [] \<Longrightarrow> \<forall>s \<in> set p. CHR ''.'' \<notin> set s \<Longrightarrow> split_at CHR ''.'' (join_dot p) = p"
proof (induction p rule: join_dot.induct)
  case 1
  then show ?case by simp
next
  case (2 s)
  then show ?case by (simp add: split_at_no_sep)
next
  case (3 s t ss)
  then show ?case by (simp add: split_at_sep)
qed

lemma join_dot_snoc: "p \<noteq> [] \<Longrightarrow> join_dot (p @ [k]) = join_dot p @ ''.'' @ k"
  by (induction p rule: join_dot.induct) auto

lemma join_dot_nonempty: "p \<noteq> [] \<Longrightarrow> hd p \<noteq> [] \<Longrightarrow> join_dot p \<noteq> []"
  by (induction p rule: join_dot.induct) auto

lemma child_field:
  "p \<noteq> [] \<Longrightarrow> hd p \<noteq> [] \<Longrightarrow>
   (if join_dot p \<noteq> [] then join_dot p @ ''.'' @ k else k) = join_dot (p @ [k])"
  by (simp add: join_dot_nonempty join_dot_snoc)

lemma join_dot_has_dot: "2 \<le> length p \<Longrightarrow> CHR ''.'' \<in> set (join_dot p)"
  by (induction p rule: join_dot.induct) auto

lemma proto_path:
  assumes "q \<noteq> []" and "join_dot q = ''__proto__''"
  shows "q = [''__proto__'']"
proof (cases "2 \<le> length q")
  case True
  from join_dot_has_dot [OF True] assms(2) show ?thesis by simp
next
  case False
  with assms(1) obtain s where "q = [s]"
    by (cases q) (auto simp: not_le less_Suc_eq_le)
  with assms(2) show ?thesis by simp
qed

lemma plain_member_obj: "plain_member (VObj ms) = (ms \<noteq> [] \<and> plain_members ms)"
  by (simp add: plain_members_def)

declare plain_member.simps(1) [simp del]

lemma plain_membersD:
  "plain_members ms \<Longrightarrow> (k, c) \<in> set ms \<Longrightarrow> plain_key k \<and> plain_member c"
  by (auto simp: plain_members_def list_all_iff)

lemma plain_members_Cons:
  "plain_members ((k, c) # ms) =
     (k \<notin> fst ` set ms \<and> plain_key k \<and> plain_member c \<and> plain_members ms)"
  by (auto simp: plain_members_def)

subsection \<open>The paths of a value\<close>

lemma paths_prefix: "(q, x) \<in> set (paths_of p v) \<Longrightarrow> \<exists>r. q = p @ r"
proof (induction p v arbitrary: q x rule: paths_of.induct)
  case (1 p ms)
  from "1.prems" obtain k c where kc: "(k, c) \<in> set ms" "(q, x) \<in> set (paths_of (p @ [k]) c)"
    by auto
  from "1.IH" [OF kc(1) refl kc(2)] show ?case by auto
qed auto

lemma paths_prefix_child:
  "(q, x) \<in> set (paths_of (p @ [k]) c) \<Longrightarrow> \<exists>r. q = p @ k # r"
  using paths_prefix [of q x "p @ [k]" c] by auto

lemma paths_nonempty: "plain_member v \<Longrightarrow> paths_of p v \<noteq> []"
proof (induction p v rule: paths_of.induct)
  case (1 p ms)
  then obtain k c rest where ms: "ms = (k, c) # rest"
    by (cases ms) (auto simp: plain_member_obj)
  with "1.prems" have "plain_member c"
    by (auto simp: plain_member_obj plain_members_Cons)
  with "1.IH" [of "(k, c)" k c] ms show ?case by simp
qed auto

lemma paths_plain:
  assumes "(q, x) \<in> set (paths_of p v)"
    and "plain_member v \<or> (\<exists>ms. v = VObj ms \<and> plain_members ms)"
    and "\<forall>s \<in> set p. plain_key s"
  shows "\<forall>s \<in> set q. plain_key s"
  using assms
proof (induction p v arbitrary: q x rule: paths_of.induct)
  case (1 p ms)
  from "1.prems"(2) have pm: "plain_members ms" by (auto simp: plain_member_obj)
  from "1.prems"(1) obtain k c where kc: "(k, c) \<in> set ms" "(q, x) \<in> set (paths_of (p @ [k]) c)"
    by auto
  from plain_membersD [OF pm kc(1)] have "plain_key k" "plain_member c" by auto
  with "1.IH" [OF kc(1) refl kc(2)] "1.prems"(3) show ?case by auto
qed auto

lemma paths_distinct:
  assumes "plain_member v \<or> (\<exists>ms. v = VObj ms \<and> plain_members ms)"
  shows "distinct (map fst (paths_of p v))"
  using assms
proof (induction p v rule: paths_of.induct)
  case (1 p ms)
  from "1.prems" have pm: "plain_members ms" by (auto simp: plain_member_obj)
  have ih: "distinct (map fst (paths_of (p @ [k]) c))" if "(k, c) \<in> set ms" for k c
    using "1.IH" [OF that refl] plain_membersD [OF pm that] by simp
  have "distinct (map fst (concat (map (\<lambda>(k, v). paths_of (p @ [k]) v) ns)))"
    if "set ns \<subseteq> set ms" "distinct (map fst ns)" for ns
    using that
  proof (induction ns)
    case Nil
    then show ?case by simp
  next
    case (Cons n ns)
    obtain k c where n: "n = (k, c)" by (cases n)
    have disj: "fst ` set (paths_of (p @ [k]) c)
                \<inter> fst ` set (concat (map (\<lambda>(k, v). paths_of (p @ [k]) v) ns)) = {}"
    proof (rule ccontr)
      assume "\<not> ?thesis"
      then obtain q x y k' c' where q: "(q, x) \<in> set (paths_of (p @ [k]) c)"
        "(k', c') \<in> set ns" "(q, y) \<in> set (paths_of (p @ [k']) c')"
        by fastforce
      from paths_prefix_child [OF q(1)] paths_prefix_child [OF q(3)] have "k = k'" by auto
      with Cons.prems(2) q(2) n show False by force
    qed
    from Cons n ih [of k c] disj show ?case by auto
  qed
  from this [of ms] pm show ?case by (simp add: plain_members_def)
qed auto

subsection \<open>Flattening lists the paths\<close>

lemma assign_props_fresh:
  "distinct (map fst (t @ props)) \<Longrightarrow> ''__proto__'' \<notin> fst ` set props \<Longrightarrow>
   assign_props t props = t @ props"
proof (induction props arbitrary: t)
  case Nil
  then show ?case by (simp add: assign_props_def)
next
  case (Cons kv props)
  obtain k v where kv: "kv = (k, v)" by (cases kv)
  from Cons.prems kv have fresh: "k \<notin> fst ` set t" and k: "k \<noteq> ''__proto__''" by auto
  have "assign_props t (kv # props) = assign_props (t @ [(k, v)]) props"
    using k by (simp add: assign_props_def kv update_fresh [OF fresh])
  also have "\<dots> = (t @ [(k, v)]) @ props"
    using Cons.prems kv by (intro Cons.IH) auto
  finally show ?case by (simp add: kv)
qed

lemma Object_assign_fresh:
  "distinct (map fst (t @ concat es)) \<Longrightarrow> ''__proto__'' \<notin> fst ` set (concat es) \<Longrightarrow>
   Object_assign t (map VObj es) = VObj (t @ concat es)"
proof (induction es arbitrary: t)
  case Nil
  then show ?case by (simp add: Object_assign_def)
next
  case (Cons e es)
  from Cons.prems have d: "distinct (map fst (t @ e))" and np: "''__proto__'' \<notin> fst ` set e"
    by auto
  have "Object_assign t (map VObj (e # es)) = Object_assign (assign_props t e) (map VObj es)"
    by (simp add: Object_assign_def)
  also have "\<dots> = Object_assign (t @ e) (map VObj es)"
    by (simp add: assign_props_fresh [OF d np])
  also have "\<dots> = VObj ((t @ e) @ concat es)"
    using Cons.prems by (intro Cons.IH) auto
  finally show ?case by simp
qed

lemma join_dot_inj:
  assumes "p \<noteq> []" "q \<noteq> []" "\<forall>s \<in> set p. plain_key s" "\<forall>s \<in> set q. plain_key s"
    and "join_dot p = join_dot q"
  shows "p = q"
proof -
  have dp: "\<forall>s \<in> set p. CHR ''.'' \<notin> set s" using assms(3) by (simp add: plain_key_def)
  have dq: "\<forall>s \<in> set q. CHR ''.'' \<notin> set s" using assms(4) by (simp add: plain_key_def)
  have "p = split_at CHR ''.'' (join_dot p)" by (rule split_join [OF assms(1) dp, symmetric])
  also have "\<dots> = split_at CHR ''.'' (join_dot q)" by (simp only: assms(5))
  also have "\<dots> = q" by (rule split_join [OF assms(2) dq])
  finally show ?thesis .
qed

lemma dotted_keys_distinct:
  assumes "distinct (map fst es)"
    and "\<forall>(q, x) \<in> set es. q \<noteq> [] \<and> (\<forall>s \<in> set q. plain_key s)"
  shows "distinct (map fst (map dotted es))"
proof -
  have inj: "inj_on join_dot (set (map fst es))"
  proof (rule inj_onI)
    fix p q assume p: "p \<in> set (map fst es)" and q: "q \<in> set (map fst es)"
      and eq: "join_dot p = join_dot q"
    from p assms(2) have p': "p \<noteq> []" "\<forall>s \<in> set p. plain_key s" by auto
    from q assms(2) have q': "q \<noteq> []" "\<forall>s \<in> set q. plain_key s" by auto
    from p'(1) q'(1) p'(2) q'(2) eq show "p = q" by (rule join_dot_inj)
  qed
  have a: "distinct (map join_dot (map fst es))"
    by (rule iffD2 [OF distinct_map]) (rule conjI [OF assms(1) inj])
  have b: "map fst (map dotted es) = map join_dot (map fst es)"
    by (simp add: dotted_def comp_def)
  show ?thesis by (simp only: b a)
qed

lemma paths_nonempty_path:
  assumes "(q, x) \<in> set (paths_of p v)" and "p \<noteq> [] \<or> (\<exists>ms. v = VObj ms)"
  shows "q \<noteq> []"
proof (cases "p = []")
  case False
  with paths_prefix [OF assms(1)] show ?thesis by auto
next
  case True
  with assms(2) obtain ms where v: "v = VObj ms" by auto
  with assms(1) obtain k c where "(k, c) \<in> set ms" "(q, x) \<in> set (paths_of (p @ [k]) c)"
    by auto
  with paths_prefix_child [of q x p k c] show ?thesis by auto
qed

lemma paths_longer: "(q, x) \<in> set (paths_of p (VObj ms)) \<Longrightarrow> length p < length q"
proof -
  assume "(q, x) \<in> set (paths_of p (VObj ms))"
  then obtain k c where "(k, c) \<in> set ms" "(q, x) \<in> set (paths_of (p @ [k]) c)"
    by auto
  with paths_prefix_child [of q x p k c] show ?thesis by auto
qed

lemma dotted_key:
  "key \<in> fst ` set (map dotted es) \<Longrightarrow> \<exists>q x. (q, x) \<in> set es \<and> join_dot q = key"
  by (auto simp: dotted_def)

text \<open>
  The step of \<open>flattenHelper\<close> on an object, once its members are flattened: the dotted
  keys are distinct and none of them is \<open>__proto__\<close>, so every assignment of
  \<open>Object.assign\<close> defines a new property.
\<close>

lemma flatten_members:
  assumes children: "\<And>k c. (k, c) \<in> set ms \<Longrightarrow>
        flattenHelper c (if field \<noteq> [] then field @ ''.'' @ k else k)
          = VObj (map dotted (paths_of (p @ [k]) c))"
    and pm: "plain_members ms"
    and keys: "\<forall>s \<in> set p. plain_key s"
    and np: "''__proto__'' \<notin> fst ` set (map dotted (paths_of p (VObj ms)))"
  shows "flattenHelper (VObj ms) field = VObj (map dotted (paths_of p (VObj ms)))"
proof -
  have mapped: "map (\<lambda>(subField, v). flattenHelper v
              (if field \<noteq> [] then field @ ''.'' @ subField else subField)) ms
        = map (\<lambda>m. VObj (case m of (k, c) \<Rightarrow> map dotted (paths_of (p @ [k]) c))) ms"
  proof (rule map_cong [OF refl])
    fix m assume m: "m \<in> set ms"
    obtain k c where kc: "m = (k, c)" by (cases m)
    with m children [of k c]
    show "(case m of (subField, v) \<Rightarrow> flattenHelper v
              (if field \<noteq> [] then field @ ''.'' @ subField else subField))
          = VObj (case m of (k, c) \<Rightarrow> map dotted (paths_of (p @ [k]) c))"
      by simp
  qed
  have wrap: "map (\<lambda>m. VObj (case m of (k, c) \<Rightarrow> map dotted (paths_of (p @ [k]) c))) ms
        = map VObj (map (\<lambda>(k, c). map dotted (paths_of (p @ [k]) c)) ms)"
    by simp
  have eq: "concat (map (\<lambda>(k, c). map dotted (paths_of (p @ [k]) c)) ms)
              = map dotted (paths_of p (VObj ms))"
    by (simp add: map_concat comp_def case_prod_unfold)
  have "flattenHelper (VObj ms) field
        = Object_assign [] (map (\<lambda>(subField, v). flattenHelper v
              (if field \<noteq> [] then field @ ''.'' @ subField else subField)) ms)"
    by simp
  also have "\<dots> = Object_assign [] (map VObj (map (\<lambda>(k, c). map dotted (paths_of (p @ [k]) c)) ms))"
    by (simp only: mapped wrap)
  also have "\<dots> = VObj ([] @ concat (map (\<lambda>(k, c). map dotted (paths_of (p @ [k]) c)) ms))"
  proof (rule Object_assign_fresh)
    have "distinct (map fst (map dotted (paths_of p (VObj ms))))"
    proof (rule dotted_keys_distinct)
      show "distinct (map fst (paths_of p (VObj ms)))"
        using pm by (intro paths_distinct) auto
      show "\<forall>(q, x) \<in> set (paths_of p (VObj ms)). q \<noteq> [] \<and> (\<forall>s \<in> set q. plain_key s)"
      proof (clarify, intro conjI)
        fix q x assume qx: "(q, x) \<in> set (paths_of p (VObj ms))"
        show "q \<noteq> []" using paths_nonempty_path [OF qx] by auto
        show "\<forall>s \<in> set q. plain_key s"
          using paths_plain [OF qx _ keys] pm by auto
      qed
    qed
    with eq show "distinct (map fst ([] @ concat (map (\<lambda>(k, c). map dotted (paths_of (p @ [k]) c)) ms)))"
      by simp
    from np eq show "''__proto__'' \<notin> fst ` set (concat (map (\<lambda>(k, c). map dotted (paths_of (p @ [k]) c)) ms))"
      by simp
  qed
  also have "\<dots> = VObj (map dotted (paths_of p (VObj ms)))"
    by (simp add: eq)
  finally show ?thesis .
qed

lemma flattenHelper_paths:
  assumes "plain_member v"
    and "\<forall>s \<in> set p. plain_key s"
    and "p \<noteq> []" and "hd p \<noteq> []"
  shows "flattenHelper v (join_dot p) = VObj (map dotted (paths_of p v))"
  using assms
proof (induction p v rule: paths_of.induct)
  case (1 p ms)
  from "1.prems"(1) have pm: "plain_members ms" by (auto simp: plain_member_obj)
  have np: "''__proto__'' \<notin> fst ` set (map dotted (paths_of p (VObj ms)))"
  proof
    assume "''__proto__'' \<in> fst ` set (map dotted (paths_of p (VObj ms)))"
    from dotted_key [OF this]
    obtain q x where qx: "(q, x) \<in> set (paths_of p (VObj ms))" "join_dot q = ''__proto__''"
      by blast
    from paths_longer [OF qx(1)] "1.prems"(3) have "2 \<le> length q"
      by (cases p) auto
    from join_dot_has_dot [OF this] qx(2) show False by simp
  qed
  show ?case
  proof (rule flatten_members [OF _ pm "1.prems"(2) np])
    fix k c assume kc: "(k, c) \<in> set ms"
    from plain_membersD [OF pm kc] have k: "plain_key k" and c: "plain_member c" by auto
    have "flattenHelper c (join_dot (p @ [k])) = VObj (map dotted (paths_of (p @ [k]) c))"
      using "1.IH" [OF kc refl c] k "1.prems"(2,3,4) by simp
    then show "flattenHelper c (if join_dot p \<noteq> [] then join_dot p @ ''.'' @ k else k)
                 = VObj (map dotted (paths_of (p @ [k]) c))"
      by (simp only: child_field [OF "1.prems"(3,4)])
  qed
qed (simp_all add: dotted_def join_dot_nonempty)

lemma flatten_paths:
  assumes pm: "plain_members ms" and top: "list_all top_member ms"
  shows "flatten (VObj ms) = VObj (map dotted (paths_of [] (VObj ms)))"
proof -
  have np: "''__proto__'' \<notin> fst ` set (map dotted (paths_of [] (VObj ms)))"
  proof
    assume "''__proto__'' \<in> fst ` set (map dotted (paths_of [] (VObj ms)))"
    from dotted_key [OF this]
    obtain q x where qx: "(q, x) \<in> set (paths_of [] (VObj ms))" "join_dot q = ''__proto__''"
      by blast
    from paths_nonempty_path [OF qx(1)] have "q \<noteq> []" by auto
    from proto_path [OF this qx(2)] have q: "q = [''__proto__'']" .
    from qx(1) obtain k c where kc: "(k, c) \<in> set ms" "(q, x) \<in> set (paths_of [k] c)"
      by auto
    from paths_prefix [OF kc(2)] q have k: "k = ''__proto__''" by (auto simp: Cons_eq_append_conv)
    from top kc(1) have t: "top_member (k, c)" by (auto simp: list_all_iff)
    show False
    proof (cases c)
      case (VObj ms')
      with paths_longer [of q x "[k]" ms'] kc(2) q show False by simp
    qed (use t k in simp_all)
  qed
  have "flattenHelper (VObj ms) [] = VObj (map dotted (paths_of [] (VObj ms)))"
  proof (rule flatten_members [OF _ pm _ np])
    fix k c assume kc: "(k, c) \<in> set ms"
    from plain_membersD [OF pm kc] have k: "plain_key k" and c: "plain_member c" by auto
    from top kc have "top_member (k, c)" by (auto simp: list_all_iff)
    then have ne: "k \<noteq> []" by (cases c) simp_all
    have "flattenHelper c (join_dot [k]) = VObj (map dotted (paths_of [k] c))"
      using k ne by (intro flattenHelper_paths [OF c]) simp_all
    then show "flattenHelper c (if [] \<noteq> [] then [] @ ''.'' @ k else k)
                 = VObj (map dotted (paths_of ([] @ [k]) c))"
      by simp
  qed simp
  then show ?thesis by (simp add: flatten_def)
qed

subsection \<open>Inserting the paths rebuilds the value\<close>

lemma put_paths_append: "put_paths (es @ fs) base = put_paths fs (put_paths es base)"
  by (simp add: put_paths_def)

lemma fresh_Nil: "fresh p []"
  by (induction p "[] :: (string \<times> val) list" rule: fresh.induct) auto

lemma map_of_None_iff: "(map_of base k = None) = (k \<notin> fst ` set base)"
  by (simp add: map_of_eq_None_iff)

lemma fresh_snoc: "p \<noteq> [] \<Longrightarrow> fresh p base \<Longrightarrow> fresh (p @ [k]) base"
proof (induction p base rule: fresh.induct)
  case (1 base)
  then show ?case by simp
next
  case (2 k0 base)
  then show ?case by simp
next
  case (3 k0 k1 ks base)
  then show ?case by (auto split: option.splits val.splits)
qed

lemma insert_path_cons:
  "p \<noteq> [] \<Longrightarrow>
   insert_path (k # p) v base =
     AList.update k
       (VObj (insert_path p v (case map_of base k of Some (VObj sub) \<Rightarrow> sub | _ \<Rightarrow> []))) base"
  by (cases p) simp_all

lemma fresh_cons:
  "p \<noteq> [] \<Longrightarrow>
   fresh (k # p) base =
     (case map_of base k of None \<Rightarrow> True | Some (VObj sub) \<Rightarrow> fresh p sub | Some _ \<Rightarrow> False)"
  by (cases p) (auto split: option.splits val.splits)

lemma fresh_after_insert:
  "p \<noteq> [] \<Longrightarrow> k \<notin> fst ` set dn \<Longrightarrow> fresh (p @ [k]) (insert_path p (VObj dn) base)"
proof (induction p arbitrary: base)
  case Nil
  then show ?case by simp
next
  case (Cons k0 p)
  show ?case
  proof (cases "p = []")
    case True
    with Cons.prems show ?thesis
      by (simp add: update_conv' map_of_None_iff)
  next
    case False
    with Cons show ?thesis
      by (simp add: insert_path_cons fresh_cons update_conv')
  qed
qed

lemma insert_first_child:
  "p \<noteq> [] \<Longrightarrow> fresh p base \<Longrightarrow>
   insert_path (p @ [k]) c base = insert_path p (VObj [(k, c)]) base"
proof (induction p arbitrary: base)
  case Nil
  then show ?case by simp
next
  case (Cons k0 p)
  show ?case
  proof (cases "p = []")
    case True
    with Cons.prems show ?thesis by simp
  next
    case False
    let ?sub = "case map_of base k0 of Some (VObj sub) \<Rightarrow> sub | _ \<Rightarrow> []"
    from Cons.prems(2) False have "fresh p ?sub"
      by (auto simp: fresh_cons fresh_Nil split: option.splits val.splits)
    with Cons.IH [OF False] have "insert_path (p @ [k]) c ?sub = insert_path p (VObj [(k, c)]) ?sub"
      by simp
    with False show ?thesis by (simp add: insert_path_cons)
  qed
qed

lemma insert_next_child:
  "p \<noteq> [] \<Longrightarrow> k \<notin> fst ` set dn \<Longrightarrow>
   insert_path (p @ [k]) c (insert_path p (VObj dn) base) = insert_path p (VObj (dn @ [(k, c)])) base"
proof (induction p arbitrary: base)
  case Nil
  then show ?case by simp
next
  case (Cons k0 p)
  show ?case
  proof (cases "p = []")
    case True
    with Cons.prems show ?thesis
      by (simp add: update_conv' update_fresh)
  next
    case False
    with Cons show ?thesis
      by (simp add: insert_path_cons update_conv')
  qed
qed

lemma put_paths_members:
  assumes ih: "\<And>k c base. (k, c) \<in> set todo \<Longrightarrow> fresh (p @ [k]) base \<Longrightarrow>
                 put_paths (paths_of (p @ [k]) c) base = insert_path (p @ [k]) c base"
    and p: "p \<noteq> []"
    and keys: "distinct (map fst (dn @ todo))"
    and dn: "dn \<noteq> []"
  shows "put_paths (concat (map (\<lambda>(k, c). paths_of (p @ [k]) c) todo)) (insert_path p (VObj dn) base)
         = insert_path p (VObj (dn @ todo)) base"
  using ih keys dn
proof (induction todo arbitrary: dn)
  case Nil
  then show ?case by (simp add: put_paths_def)
next
  case (Cons m todo)
  obtain k c where m: "m = (k, c)" by (cases m)
  from Cons.prems(2) m have k: "k \<notin> fst ` set dn" by auto
  have "put_paths (paths_of (p @ [k]) c) (insert_path p (VObj dn) base)
        = insert_path (p @ [k]) c (insert_path p (VObj dn) base)"
    using Cons.prems(1) [of k c] m fresh_after_insert [OF p k] by simp
  also have "\<dots> = insert_path p (VObj (dn @ [(k, c)])) base"
    by (rule insert_next_child [OF p k])
  finally have step: "put_paths (paths_of (p @ [k]) c) (insert_path p (VObj dn) base)
        = insert_path p (VObj (dn @ [(k, c)])) base" .
  have "put_paths (concat (map (\<lambda>(k, c). paths_of (p @ [k]) c) todo))
          (insert_path p (VObj (dn @ [(k, c)])) base)
        = insert_path p (VObj ((dn @ [(k, c)]) @ todo)) base"
  proof (rule Cons.IH)
    show "put_paths (paths_of (p @ [k']) c') b = insert_path (p @ [k']) c' b"
      if "(k', c') \<in> set todo" "fresh (p @ [k']) b" for k' c' b
      using Cons.prems(1) [of k' c' b] that by simp
    show "distinct (map fst ((dn @ [(k, c)]) @ todo))" using Cons.prems(2) m by simp
    show "dn @ [(k, c)] \<noteq> []" by simp
  qed
  with step show ?case by (simp add: m put_paths_append)
qed

lemma put_paths_value:
  "plain_member v \<Longrightarrow> p \<noteq> [] \<Longrightarrow> fresh p base \<Longrightarrow>
   put_paths (paths_of p v) base = insert_path p v base"
proof (induction p v arbitrary: base rule: paths_of.induct)
  case (1 p ms)
  from "1.prems"(1) have pm: "plain_members ms" and ne: "ms \<noteq> []"
    by (auto simp: plain_member_obj)
  from ne obtain k c todo where ms: "ms = (k, c) # todo" by (cases ms) auto
  have ih: "put_paths (paths_of (p @ [k']) c') b = insert_path (p @ [k']) c' b"
    if "(k', c') \<in> set ms" "fresh (p @ [k']) b" for k' c' b
    using "1.IH" [OF that(1) refl _ _ that(2)] plain_membersD [OF pm that(1)] by simp
  have first: "put_paths (paths_of (p @ [k]) c) base = insert_path p (VObj [(k, c)]) base"
    using ih [of k c base] ms fresh_snoc [OF "1.prems"(2,3)] insert_first_child [OF "1.prems"(2,3)]
    by simp
  have rest: "put_paths (concat (map (\<lambda>(k, c). paths_of (p @ [k]) c) todo))
                (insert_path p (VObj [(k, c)]) base)
              = insert_path p (VObj ([(k, c)] @ todo)) base"
  proof (rule put_paths_members)
    show "put_paths (paths_of (p @ [k']) c') b = insert_path (p @ [k']) c' b"
      if "(k', c') \<in> set todo" "fresh (p @ [k']) b" for k' c' b
      using ih [of k' c' b] that ms by simp
    show "p \<noteq> []" by (rule "1.prems"(2))
    show "distinct (map fst ([(k, c)] @ todo))" using pm ms by (simp add: plain_members_def)
    show "[(k, c)] \<noteq> []" by simp
  qed
  show ?case
    by (simp add: ms put_paths_append first rest)
qed (simp_all add: put_paths_def)

lemma put_paths_top:
  assumes "plain_members (dn @ todo)"
  shows "put_paths (concat (map (\<lambda>(k, c). paths_of [k] c) todo)) dn = dn @ todo"
  using assms
proof (induction todo arbitrary: dn)
  case Nil
  then show ?case by (simp add: put_paths_def)
next
  case (Cons m todo)
  obtain k c where m: "m = (k, c)" by (cases m)
  from Cons.prems m have k: "k \<notin> fst ` set dn" and c: "plain_member c"
    by (auto simp: plain_members_def)
  have "put_paths (paths_of [k] c) dn = insert_path [k] c dn"
    using k by (intro put_paths_value [OF c]) (simp_all add: map_of_None_iff)
  also have "\<dots> = dn @ [(k, c)]"
    using k by (simp add: update_fresh)
  finally have step: "put_paths (paths_of [k] c) dn = dn @ [(k, c)]" .
  have "put_paths (concat (map (\<lambda>(k, c). paths_of [k] c) todo)) (dn @ [(k, c)])
        = (dn @ [(k, c)]) @ todo"
    using Cons.prems m by (intro Cons.IH) simp
  with step show ?case by (simp add: m put_paths_append)
qed

lemma unflatten_dotted:
  assumes "\<forall>(q, x) \<in> set es. q \<noteq> [] \<and> (\<forall>s \<in> set q. plain_key s)"
  shows "unflatten (VObj (map dotted es)) = VObj (put_paths es [])"
proof -
  have "fold (\<lambda>(key, v) ms. insert_path (split_at CHR ''.'' key) v ms) (map dotted es) base
        = fold (\<lambda>(q, x) ms. insert_path q x ms) es base" for base
    using assms
  proof (induction es arbitrary: base)
    case Nil
    then show ?case by simp
  next
    case (Cons e es)
    obtain q x where e: "e = (q, x)" by (cases e)
    from Cons.prems e have q: "q \<noteq> []" "\<forall>s \<in> set q. CHR ''.'' \<notin> set s"
      by (auto simp: plain_key_def)
    have "split_at CHR ''.'' (join_dot q) = q" by (rule split_join [OF q])
    with Cons e show ?case by (simp add: dotted_def)
  qed
  then show ?thesis by (simp add: put_paths_def)
qed

text \<open>
  C5, as the code has it. For every nested mapping without arrays whose keys hold no
  dot, whose top-level keys are not empty, in which no object below the top level is
  without keys and in which the top-level member \<open>__proto__\<close>, if there is one, is an
  object, rebuilding a nested mapping from the dotted keys of \<open>flatten\<close>'s output gives
  the mapping back, whatever its depth.
\<close>

theorem unflatten_flatten:
  assumes "plain_mapping v"
  shows "unflatten (flatten v) = v"
proof -
  from assms obtain ms where v: "v = VObj ms" and pm: "plain_members ms"
    and top: "list_all top_member ms"
    by (auto simp: plain_mapping_def split: val.splits)
  have fl: "flatten v = VObj (map dotted (paths_of [] v))"
    unfolding v by (rule flatten_paths [OF pm top])
  have ok: "\<forall>(q, x) \<in> set (paths_of [] v). q \<noteq> [] \<and> (\<forall>s \<in> set q. plain_key s)"
  proof (clarify, intro conjI)
    fix q x assume qx: "(q, x) \<in> set (paths_of [] v)"
    show "q \<noteq> []" using paths_nonempty_path [OF qx] v by auto
    show "\<forall>s \<in> set q. plain_key s" using paths_plain [OF qx] v pm by simp
  qed
  have "put_paths (paths_of [] v) [] = ms"
    using put_paths_top [of "[]" ms] pm by (simp add: v)
  with unflatten_dotted [OF ok] fl show ?thesis by (simp add: v)
qed

text \<open>
  The round trip on a mapping of depth 3 that has an empty key below the top level and
  an object under the top-level key \<open>__proto__\<close>.
\<close>

theorem unflatten_flatten_witness:
  "plain_mapping nested_example \<and> unflatten (flatten nested_example) = nested_example"
proof -
  have pm: "plain_mapping nested_example"
    by (simp add: nested_example_def plain_mapping_def plain_members_def plain_member.simps
        plain_key_def)
  from unflatten_flatten [OF pm] pm show ?thesis by simp
qed

text \<open>
  C5 as the specification words it covers every nested mapping without arrays. An empty
  object below the top level is lost: \<open>{a: {}}\<close> flattens to \<open>{}\<close>. A key with a dot
  is split: \<open>{'a.b': 1}\<close> rebuilds to \<open>{a: {b: 1}}\<close>. A top-level member under the empty
  key loses its key: \<open>{'': {a: 1}}\<close> flattens to \<open>{a: 1}\<close>, and \<open>{'': 1}\<close> to \<open>{}\<close>. A
  scalar under the top-level key \<open>__proto__\<close> is dropped by the assignment of
  \<open>Object.assign\<close>: \<open>{__proto__: 1}\<close>, as \<open>JSON.parse\<close> builds it, flattens to \<open>{}\<close>.
\<close>

theorem unflatten_flatten_counterexample:
  "unflatten (flatten (VObj [(''a'', VObj [])])) \<noteq> VObj [(''a'', VObj [])]
   \<and> flatten (VObj [(''a'', VObj [])]) = VObj []
   \<and> unflatten (flatten (VObj [(''a.b'', VNum (Fin 1))])) = VObj [(''a'', VObj [(''b'', VNum (Fin 1))])]
   \<and> unflatten (flatten (VObj [(''a.b'', VNum (Fin 1))])) \<noteq> VObj [(''a.b'', VNum (Fin 1))]
   \<and> flatten (VObj [([], VObj [(''a'', VNum (Fin 1))])]) = VObj [(''a'', VNum (Fin 1))]
   \<and> unflatten (flatten (VObj [([], VObj [(''a'', VNum (Fin 1))])])) \<noteq> VObj [([], VObj [(''a'', VNum (Fin 1))])]
   \<and> flatten (VObj [([], VNum (Fin 1))]) = VObj []
   \<and> unflatten (flatten (VObj [([], VNum (Fin 1))])) \<noteq> VObj [([], VNum (Fin 1))]
   \<and> flatten (VObj [(''__proto__'', VNum (Fin 1))]) = VObj []
   \<and> unflatten (flatten (VObj [(''__proto__'', VNum (Fin 1))])) \<noteq> VObj [(''__proto__'', VNum (Fin 1))]"
  by (simp add: flatten_def Object_assign_def assign_props_def)

end
